theory Spec2Isabelle
  imports Main "HOL-Library.Word" "HOL-Library.Multiset"
begin

section \<open>Data model of the log parser\<close>

text \<open>
  The parser package keeps every quantity in Go's \<open>int\<close> (64 bits, signed, wrapping).
  Seat numbers, bet levels and hand ids are only compared or stepped by one, so they are
  modelled as \<open>int\<close>. Chip amounts are added up (\<open>PotWon\<close>, \<open>TotalPot\<close>), so they
  are 64-bit words: \<open>+\<close> wraps as in Go and the comparisons are the signed ones.
  Timestamps are opaque values that are stored and never compared by the parser.

  The type declarations of the package (\<open>Card\<close>, \<open>ActionType\<close>, \<open>Street\<close>,
  \<open>Position\<close>, \<open>PlayerAction\<close>, \<open>PlayerHandInfo\<close>, \<open>Hand\<close>, \<open>ParseResult\<close>)
  are not among the sources; the records below carry exactly the fields that the parser and
  its clients read and write. \<open>Street\<close> is ordered as the parser compares it
  (\<open>currentStreet < StreetFlop\<close>): pre-flop, flop, turn, river, showdown.
\<close>

type_synonym chips = "64 word"
type_synonym timestamp = int

datatype ActionType =
    ActionUnknown | ActionBlindSB | ActionBlindBB | ActionCheck | ActionCall
  | ActionBet | ActionRaise | ActionAllIn | ActionFold

datatype Street = StreetPreFlop | StreetFlop | StreetTurn | StreetRiver | StreetShowdown

fun streetOrd :: "Street \<Rightarrow> nat" where
  "streetOrd StreetPreFlop = 0"
| "streetOrd StreetFlop = 1"
| "streetOrd StreetTurn = 2"
| "streetOrd StreetRiver = 3"
| "streetOrd StreetShowdown = 4"

datatype Position =
    PosUnknown | PosSB | PosBB | PosUTG | PosUTG1 | PosMP | PosMP1 | PosHJ | PosCO | PosBTN

record Card =
  Rank :: string
  Suit :: string

record PlayerAction =
  Timestamp :: timestamp
  PlayerID :: int
  Street :: Street
  Action :: ActionType
  Amount :: chips

record PlayerHandInfo =
  SeatID :: int
  Actions :: "PlayerAction list"
  HoleCards :: "Card list"
  Position :: Position
  VPIP :: bool
  PFR :: bool
  ThreeBet :: bool
  FoldedPF :: bool
  FoldTo3Bet :: bool
  ShowedDown :: bool
  Won :: bool
  PotWon :: chips

record Hand =
  ID :: int
  StartTime :: timestamp
  EndTime :: timestamp
  LocalPlayerSeat :: int
  SBSeat :: int
  BBSeat :: int
  WinnerSeat :: int
  WinType :: string
  TotalPot :: chips
  CommunityCards :: "Card list"
  ActiveSeats :: "int list"
  Players :: "int \<rightharpoonup> PlayerHandInfo"
  NumPlayers :: int
  IsComplete :: bool

text \<open>\<open>ParseResult.LocalPlayerSeat\<close> is \<open>ResultLocalSeat\<close> here (the name is taken by
  the field of \<open>Hand\<close>).\<close>

record ParseResult =
  ResultLocalSeat :: int
  Hands :: "Hand list"
  InPokerWorld :: bool

record pendingWin =
  winSeat :: int
  winAmount :: chips

record pfAction =
  seatID :: int
  action :: ActionType
  amount :: chips

record Parser =
  result :: ParseResult
  currentHand :: "Hand option"
  handIDCounter :: int
  inPokerWorld :: bool
  currentStreet :: Street
  streetBetAmount :: chips
  foldedThisHand :: "int \<Rightarrow> bool"
  pendingWinners :: "pendingWin list"
  lastTimestamp :: timestamp
  streetBets :: "int \<rightharpoonup> chips"
  pfActions :: "pfAction list"
  pendingLocalCards :: "Card list option"
  lastBlindSeat :: int

text \<open>The zero values Go gives to a fresh \<open>Card\<close>, \<open>PlayerHandInfo\<close> and \<open>time.Time\<close>.\<close>

definition emptyCard :: Card where
  "emptyCard = \<lparr>Rank = [], Suit = []\<rparr>"

definition newPlayerHandInfo :: "int \<Rightarrow> PlayerHandInfo" where
  "newPlayerHandInfo seat =
     \<lparr>SeatID = seat, Actions = [], HoleCards = [], Position = PosUnknown, VPIP = False,
      PFR = False, ThreeBet = False, FoldedPF = False, FoldTo3Bet = False,
      ShowedDown = False, Won = False, PotWon = 0\<rparr>"

definition zeroTime :: timestamp where
  "zeroTime = 0"

section \<open>The tokenized log\<close>

text \<open>
  \<open>ParseLine\<close> matches a line against regular expressions. The model starts after the
  matching: a line is what the first matching pattern captured. Digit groups
  (\<open>\d+\<close>) are natural numbers; card groups (\<open>.+\<close>) are the captured text, which the
  parser hands to the card decoder. \<open>Joining\<close> carries whether the captured world id equals
  \<open>VRPokerWorldID\<close> (a constant declared outside the sources).
\<close>

datatype msg =
    NewGame
  | DrawLocalHole string
  | SBBet nat nat
  | BBBet nat nat
  | NewCommunity string
  | NextPhase
  | PlayerFolded nat
  | PlayerEndTurn nat nat
  | ShowHoleCards nat string
  | FoldToOne
  | PotWinner nat nat
  | PotManager nat nat
  | OtherMsg

datatype logline =
    NoTimestamp
  | Joining timestamp bool
  | OnLeftRoom timestamp
  | PokerMsg timestamp msg

text \<open>\<open>strconv.Atoi\<close> on a digit string, its error dropped (\<open>seat, _ := strconv.Atoi(m[1])\<close>):
  a value beyond the 64-bit range comes back as the largest \<open>int\<close>.\<close>

definition Atoi :: "nat \<Rightarrow> int" where
  "Atoi n = int (min n (2 ^ 63 - 1))"

definition AtoiChips :: "nat \<Rightarrow> chips" where
  "AtoiChips n = word_of_int (Atoi n)"

section \<open>Card decoder\<close>

text \<open>
  \<open>strings.TrimSpace\<close> strips the Unicode white space at both ends. On the bytes of a
  string these are the six ASCII ones and the UTF-8 encodings of U+0085, U+00A0, U+1680,
  U+2000 to U+200A, U+2028, U+2029, U+202F, U+205F and U+3000.
\<close>

definition spaceSeqs :: "string list" where
  "spaceSeqs =
     [[CHR 0x09], [CHR 0x0A], [CHR 0x0B], [CHR 0x0C], [CHR 0x0D], [CHR 0x20],
      [CHR 0xC2, CHR 0x85], [CHR 0xC2, CHR 0xA0], [CHR 0xE1, CHR 0x9A, CHR 0x80],
      [CHR 0xE2, CHR 0x80, CHR 0x80], [CHR 0xE2, CHR 0x80, CHR 0x81],
      [CHR 0xE2, CHR 0x80, CHR 0x82], [CHR 0xE2, CHR 0x80, CHR 0x83],
      [CHR 0xE2, CHR 0x80, CHR 0x84], [CHR 0xE2, CHR 0x80, CHR 0x85],
      [CHR 0xE2, CHR 0x80, CHR 0x86], [CHR 0xE2, CHR 0x80, CHR 0x87],
      [CHR 0xE2, CHR 0x80, CHR 0x88], [CHR 0xE2, CHR 0x80, CHR 0x89],
      [CHR 0xE2, CHR 0x80, CHR 0x8A], [CHR 0xE2, CHR 0x80, CHR 0xA8],
      [CHR 0xE2, CHR 0x80, CHR 0xA9], [CHR 0xE2, CHR 0x80, CHR 0xAF],
      [CHR 0xE2, CHR 0x81, CHR 0x9F], [CHR 0xE3, CHR 0x80, CHR 0x80]]"

fun startsWith :: "string \<Rightarrow> string \<Rightarrow> bool" where
  "startsWith s [] = True"
| "startsWith [] (c # cs) = False"
| "startsWith (x # xs) (c # cs) = (x = c \<and> startsWith xs cs)"

function trimLeftWith :: "string list \<Rightarrow> string \<Rightarrow> string" where
  "trimLeftWith seqs s =
     (case find (\<lambda>q. q \<noteq> [] \<and> startsWith s q) seqs of
        None \<Rightarrow> s
      | Some q \<Rightarrow> trimLeftWith seqs (drop (length q) s))"
  by pat_completeness auto

termination trimLeftWith
proof (relation "measure (\<lambda>(seqs, s). length s)")
  show "wf (measure (\<lambda>(seqs, s). length s))" by simp
next
  fix seqs :: "string list" and s q :: string
  assume "find (\<lambda>q. q \<noteq> [] \<and> startsWith s q) seqs = Some q"
  then have "q \<noteq> []" and "startsWith s q"
    by (auto simp: find_Some_iff)
  then have "s \<noteq> []" and "0 < length q"
    by (cases s; cases q; simp)+
  then show "((seqs, drop (length q) s), (seqs, s)) \<in> measure (\<lambda>(seqs, s). length s)"
    by simp
qed

definition TrimSpace :: "string \<Rightarrow> string" where
  "TrimSpace s = rev (trimLeftWith (map rev spaceSeqs) (rev (trimLeftWith spaceSeqs s)))"

text \<open>\<open>strings.Split(s, ",")\<close>: the pieces between the commas, at least one piece.\<close>

fun splitComma :: "string \<Rightarrow> string \<Rightarrow> string list" where
  "splitComma cur [] = [rev cur]"
| "splitComma cur (c # cs) =
     (if c = CHR '','' then rev cur # splitComma [] cs else splitComma (c # cur) cs)"

definition validSuits :: "string list" where
  "validSuits = [''h'', ''d'', ''c'', ''s'']"

text \<open>The keys of \<open>validRanks\<close>: the one-character ranks \<open>2\<close> to \<open>9\<close>, then
  \<open>10\<close>, \<open>J\<close>, \<open>Q\<close>, \<open>K\<close>, \<open>A\<close>.\<close>

definition validRanks :: "string list" where
  "validRanks = map (\<lambda>c. [c]) ''23456789'' @ [''10'', ''J'', ''Q'', ''K'', ''A'']"

text \<open>
  \<open>parseCard\<close> and \<open>parseCards\<close> return a card (or cards) and an \<open>error\<close>; the error is
  the left summand. Both \<open>return Card{}, nil\<close> statements of \<open>parseCard\<close> are \<open>Inr emptyCard\<close>.
\<close>

datatype decodeError = DecodeError

definition parseCard :: "string \<Rightarrow> decodeError + Card" where
  "parseCard s0 =
     (let s = TrimSpace s0 in
      if length s < 2 then Inr emptyCard
      else
        let suit = [last s]; rank = butlast s in
        if suit \<notin> set validSuits \<or> rank \<notin> set validRanks
        then Inr emptyCard
        else Inr \<lparr>Rank = rank, Suit = suit\<rparr>)"

fun parseCardsLoop :: "string list \<Rightarrow> Card list \<Rightarrow> decodeError + Card list" where
  "parseCardsLoop [] cards = Inr cards"
| "parseCardsLoop (part # parts) cards =
     (case parseCard (TrimSpace part) of
        Inl err \<Rightarrow> Inl err
      | Inr c \<Rightarrow> parseCardsLoop parts (cards @ [c]))"

definition parseCards :: "string \<Rightarrow> decodeError + Card list" where
  "parseCards s = parseCardsLoop (splitComma [] s) []"

text \<open>\<open>cardsMatch\<close>: equal lengths, then rank and suit compared index by index.\<close>

definition cardsMatch :: "Card list \<Rightarrow> Card list \<Rightarrow> bool" where
  "cardsMatch a b =
     (if length a \<noteq> length b then False
      else list_all2 (\<lambda>x y. if Rank x \<noteq> Rank y then False
                             else if Suit x \<noteq> Suit y then False else True) a b)"

section \<open>Seats, blinds and positions\<close>

text \<open>
  \<open>sortInts\<close> is an insertion sort in place: for \<open>i\<close> from 1, the element at \<open>i\<close> is
  swapped towards the front while it is smaller than its left neighbour. \<open>sortInner\<close> is
  the inner loop (started at \<open>j = i\<close>), \<open>sortInts\<close> the outer one.
\<close>

fun sortInner :: "int list \<Rightarrow> nat \<Rightarrow> int list" where
  "sortInner s 0 = s"
| "sortInner s (Suc j) =
     (if s ! Suc j < s ! j then sortInner (s[Suc j := s ! j, j := s ! Suc j]) j else s)"

definition sortInts :: "int list \<Rightarrow> int list" where
  "sortInts s = fold (\<lambda>i s. sortInner s i) [1..<length s] s"

text \<open>The search loops \<open>for i, s := range seats { if s == x { idx = i; break } }\<close>:
  the first index holding \<open>x\<close>, \<open>None\<close> where the source keeps \<open>-1\<close>.\<close>

fun indexOf :: "int \<Rightarrow> int list \<Rightarrow> nat option" where
  "indexOf x [] = None"
| "indexOf x (s # ss) = (if s = x then Some 0 else map_option Suc (indexOf x ss))"

text \<open>The loop of \<open>inferBlindsFromPreflop\<close> over the pre-flop actions; the first argument
  is the running value of \<open>firstSeat\<close>.\<close>

fun firstSeatLoop :: "int \<Rightarrow> pfAction list \<Rightarrow> int" where
  "firstSeatLoop firstSeat [] = firstSeat"
| "firstSeatLoop firstSeat (act # rest) =
     (if action act = ActionBlindSB \<or> action act = ActionBlindBB
      then firstSeatLoop firstSeat rest
      else
        let firstSeat' =
          (if action act \<in> {ActionFold, ActionCheck, ActionCall, ActionBet, ActionRaise, ActionAllIn}
           then seatID act else firstSeat)
        in if 0 \<le> firstSeat' then firstSeat' else firstSeatLoop firstSeat' rest)"

text \<open>
  \<open>inferBlindsFromPreflop\<close> (the hand is a value here, so the \<open>h == nil\<close> exit has no
  counterpart). It returns whether it changed the hand, and the hand. The indices
  \<open>(idx - 1 + len) % len\<close> and \<open>(idx - 2 + len) % len\<close> are taken with \<open>len \<ge> 2\<close>,
  so nothing is negative.
\<close>

definition inferBlindsFromPreflop :: "pfAction list \<Rightarrow> Hand \<Rightarrow> bool \<times> Hand" where
  "inferBlindsFromPreflop pfs h =
     (if 0 \<le> SBSeat h \<and> 0 \<le> BBSeat h then (False, h)
      else
        let seats = sortInts (ActiveSeats h); n = length seats in
        if n < 2 then (False, h)
        else
          case (if 0 \<le> SBSeat h \<and> BBSeat h < 0 then indexOf (SBSeat h) seats else None) of
            Some sbIdx \<Rightarrow> (True, h\<lparr>BBSeat := seats ! ((sbIdx + 1) mod n)\<rparr>)
          | None \<Rightarrow>
             (case (if 0 \<le> BBSeat h \<and> SBSeat h < 0 then indexOf (BBSeat h) seats else None) of
                Some bbIdx \<Rightarrow> (True, h\<lparr>SBSeat := seats ! ((bbIdx + n - 1) mod n)\<rparr>)
              | None \<Rightarrow>
                 (let firstSeat = firstSeatLoop (- 1) pfs in
                  if firstSeat < 0 then (False, h)
                  else
                    case indexOf firstSeat seats of
                      None \<Rightarrow> (False, h)
                    | Some idx \<Rightarrow>
                        (True, h\<lparr>BBSeat := seats ! ((idx + n - 1) mod n),
                                  SBSeat := seats ! ((idx + n - 2) mod n)\<rparr>))))"

text \<open>
  \<open>positionOrder\<close> as in \<open>position.go\<close>. In the default case the source writes
  \<open>result[0]\<close> without a guard, which panics for \<open>n = 0\<close>: that is \<open>None\<close>.
\<close>

definition positionOrder :: "nat \<Rightarrow> Position list option" where
  "positionOrder n =
     (if n = 2 then Some [PosSB, PosBTN]
      else if n = 3 then Some [PosSB, PosBB, PosBTN]
      else if n = 4 then Some [PosSB, PosBB, PosUTG, PosBTN]
      else if n = 5 then Some [PosSB, PosBB, PosUTG, PosMP, PosBTN]
      else if n = 6 then Some [PosSB, PosBB, PosUTG, PosHJ, PosCO, PosBTN]
      else if n = 7 then Some [PosSB, PosBB, PosUTG, PosUTG1, PosHJ, PosCO, PosBTN]
      else if n = 8 then Some [PosSB, PosBB, PosUTG, PosUTG1, PosMP, PosHJ, PosCO, PosBTN]
      else if n = 0 then None
      else
        let r0 = (replicate n PosUnknown)[0 := PosSB];
            r1 = (if 1 < n then r0[1 := PosBB] else r0);
            r2 = (if 2 < n then r1[n - 1 := PosBTN] else r1);
            r3 = (if 3 < n then r2[n - 2 := PosCO] else r2);
            r4 = (if 4 < n then r3[n - 3 := PosMP] else r3)
        in Some r4)"

text \<open>Writing through the pointer \<open>h.Players[seat]\<close> when the entry exists.\<close>

definition updPlayer :: "int \<Rightarrow> (PlayerHandInfo \<Rightarrow> PlayerHandInfo) \<Rightarrow> Hand \<Rightarrow> Hand" where
  "updPlayer seat f h =
     (case Players h seat of
        None \<Rightarrow> h
      | Some pi \<Rightarrow> h\<lparr>Players := (Players h)(seat \<mapsto> f pi)\<rparr>)"

fun assignPositionsLoop :: "Position list \<Rightarrow> nat \<Rightarrow> int list \<Rightarrow> Hand \<Rightarrow> Hand" where
  "assignPositionsLoop positions i [] h = h"
| "assignPositionsLoop positions i (seat # rest) h =
     assignPositionsLoop positions (Suc i) rest
       (if i < length positions then updPlayer seat (\<lambda>pi. pi\<lparr>Position := positions ! i\<rparr>) h
        else h)"

text \<open>\<open>assignPositions\<close>; \<open>positionOrder\<close> is called on a list that holds the SB seat,
  so its panic (the \<open>None\<close> below) is never reached (lemma \<open>assignPositions_no_panic\<close>).\<close>

definition assignPositions :: "Hand \<Rightarrow> Hand" where
  "assignPositions h =
     (if SBSeat h < 0 \<or> BBSeat h < 0 then h
      else
        let allSeats = sortInts (ActiveSeats h) in
        case indexOf (SBSeat h) allSeats of
          None \<Rightarrow> h
        | Some sbIdx \<Rightarrow>
            (let rotated = drop sbIdx allSeats @ take sbIdx allSeats in
             (case positionOrder (length rotated) of
                None \<Rightarrow> h
              | Some positions \<Rightarrow> assignPositionsLoop positions 0 rotated h)))"

section \<open>The hand state machine\<close>

text \<open>
  The Go parser mutates \<open>*p\<close> and, through the pointer \<open>p.currentHand\<close>, the hand in
  progress. A handler that runs behind the \<open>p.currentHand == nil\<close> check is a function
  of the hand \<open>h\<close> and the parser \<open>p\<close> that returns both; \<open>processPokerEvent\<close> stores
  the hand back into \<open>currentHand\<close>.
\<close>

definition NewParser :: Parser where
  "NewParser =
     \<lparr>result = \<lparr>ResultLocalSeat = - 1, Hands = [], InPokerWorld = False\<rparr>,
      currentHand = None, handIDCounter = 0, inPokerWorld = False,
      currentStreet = StreetPreFlop, streetBetAmount = 0, foldedThisHand = (\<lambda>_. False),
      pendingWinners = [], lastTimestamp = zeroTime, streetBets = Map.empty,
      pfActions = [], pendingLocalCards = None, lastBlindSeat = 0\<rparr>"

definition ensurePlayer :: "int \<Rightarrow> Hand \<Rightarrow> Hand" where
  "ensurePlayer seat h =
     (case Players h seat of
        Some pi \<Rightarrow> h
      | None \<Rightarrow>
          h\<lparr>Players := (Players h)(seat \<mapsto> newPlayerHandInfo seat),
            ActiveSeats := (if seat \<in> set (ActiveSeats h) then ActiveSeats h
                            else ActiveSeats h @ [seat])\<rparr>)"

definition addAction :: "int \<Rightarrow> PlayerAction \<Rightarrow> Hand \<Rightarrow> Hand" where
  "addAction seat a h = updPlayer seat (\<lambda>pi. pi\<lparr>Actions := Actions pi @ [a]\<rparr>) h"

definition assignLocalCards :: "int \<Rightarrow> Card list \<Rightarrow> Hand \<times> Parser \<Rightarrow> Hand \<times> Parser" where
  "assignLocalCards seat cards hp =
     (case hp of (h, p) \<Rightarrow>
        ((updPlayer seat (\<lambda>pi. pi\<lparr>HoleCards := cards\<rparr>) (ensurePlayer seat h))
            \<lparr>LocalPlayerSeat := seat\<rparr>,
         p\<lparr>result := (result p)\<lparr>ResultLocalSeat := seat\<rparr>, pendingLocalCards := None\<rparr>))"

text \<open>\<open>classifyAction\<close>; \<open>prevCommitted\<close> is read from \<open>streetBets\<close> (0 for a missing key)
  and both branches of its test return \<open>ActionCheck\<close>.\<close>

definition classifyAction :: "Parser \<Rightarrow> int \<Rightarrow> chips \<Rightarrow> ActionType" where
  "classifyAction p seat amt =
     (let prevCommitted = (case streetBets p seat of None \<Rightarrow> 0 | Some c \<Rightarrow> c) in
      if amt = 0 then
        (if streetBetAmount p = 0 \<or> prevCommitted = streetBetAmount p then ActionCheck
         else ActionCheck)
      else if streetBetAmount p = 0 then ActionBet
      else if streetBetAmount p <s amt then ActionRaise
      else if amt = streetBetAmount p then ActionCall
      else ActionCall)"

definition startNewHand :: "timestamp \<Rightarrow> Parser \<Rightarrow> Parser" where
  "startNewHand ts p =
     (let counter = handIDCounter p + 1;
          localSeat = ResultLocalSeat (result p)
      in p\<lparr>handIDCounter := counter,
           currentHand := Some
             \<lparr>ID = counter, StartTime = ts, EndTime = zeroTime, LocalPlayerSeat = localSeat,
              SBSeat = - 1, BBSeat = - 1, WinnerSeat = - 1, WinType = [], TotalPot = 0,
              CommunityCards = [], ActiveSeats = [], Players = Map.empty, NumPlayers = 0,
              IsComplete = False\<rparr>,
           currentStreet := StreetPreFlop,
           streetBets := Map.empty,
           streetBetAmount := 0,
           pfActions := [],
           foldedThisHand := (\<lambda>_. False),
           pendingWinners := [],
           pendingLocalCards := None,
           lastBlindSeat := - 1\<rparr>)"

text \<open>The handlers of \<open>processPokerEvent\<close> that run on a current hand, in the order of the
  source.\<close>

fun handleEvent :: "timestamp \<Rightarrow> msg \<Rightarrow> Hand \<times> Parser \<Rightarrow> Hand \<times> Parser" where
  "handleEvent ts NewGame (h, p) = (h, p)"
| "handleEvent ts (DrawLocalHole txt) (h, p) =
     (case parseCards txt of
        Inl err \<Rightarrow> (h, p)
      | Inr cards \<Rightarrow>
          let p1 = p\<lparr>pendingLocalCards := Some cards\<rparr>;
              localSeat = ResultLocalSeat (result p1)
          in if 0 \<le> localSeat then assignLocalCards localSeat cards (h, p1)
             else if 0 \<le> lastBlindSeat p1 then assignLocalCards (lastBlindSeat p1) cards (h, p1)
             else (h, p1))"
| "handleEvent ts (SBBet seatDigits amountDigits) (h, p) =
     (let seat = Atoi seatDigits; amt = AtoiChips amountDigits;
          h1 = ensurePlayer seat (h\<lparr>SBSeat := seat\<rparr>);
          h2 = addAction seat \<lparr>Timestamp = ts, PlayerID = seat, Street = StreetPreFlop,
                               Action = ActionBlindSB, Amount = amt\<rparr> h1
      in (h2,
          p\<lparr>streetBets := (streetBets p)(seat \<mapsto> amt),
            streetBetAmount := (if streetBetAmount p <s amt then amt else streetBetAmount p),
            pfActions := pfActions p @ [\<lparr>seatID = seat, action = ActionBlindSB, amount = amt\<rparr>],
            lastBlindSeat := seat\<rparr>))"
| "handleEvent ts (BBBet seatDigits amountDigits) (h, p) =
     (let seat = Atoi seatDigits; amt = AtoiChips amountDigits;
          h1 = ensurePlayer seat (h\<lparr>BBSeat := seat\<rparr>);
          h2 = addAction seat \<lparr>Timestamp = ts, PlayerID = seat, Street = StreetPreFlop,
                               Action = ActionBlindBB, Amount = amt\<rparr> h1
      in (h2,
          p\<lparr>streetBets := (streetBets p)(seat \<mapsto> amt),
            streetBetAmount := (if streetBetAmount p <s amt then amt else streetBetAmount p),
            pfActions := pfActions p @ [\<lparr>seatID = seat, action = ActionBlindBB, amount = amt\<rparr>],
            lastBlindSeat := seat\<rparr>))"
| "handleEvent ts (NewCommunity txt) (h, p) =
     (case parseCard (TrimSpace txt) of
        Inl err \<Rightarrow> (h, p)
      | Inr c \<Rightarrow>
          let h1 = h\<lparr>CommunityCards := CommunityCards h @ [c]\<rparr>;
              n = length (CommunityCards h1)
          in (h1,
              if n = 1 \<or> n = 2 \<or> n = 3 then
                (if streetOrd (currentStreet p) < streetOrd StreetFlop
                 then p\<lparr>currentStreet := StreetFlop\<rparr> else p)
              else if n = 4 then p\<lparr>currentStreet := StreetTurn\<rparr>
              else if n = 5 then p\<lparr>currentStreet := StreetRiver\<rparr>
              else p))"
| "handleEvent ts NextPhase (h, p) =
     (h, p\<lparr>streetBets := Map.empty, streetBetAmount := 0\<rparr>)"
| "handleEvent ts (PlayerFolded seatDigits) (h, p) =
     (let seat = Atoi seatDigits;
          p1 = p\<lparr>foldedThisHand := (foldedThisHand p)(seat := True)\<rparr>;
          h1 = ensurePlayer seat h;
          h2 = addAction seat \<lparr>Timestamp = ts, PlayerID = seat, Street = currentStreet p1,
                               Action = ActionFold, Amount = 0\<rparr> h1
      in if currentStreet p1 = StreetPreFlop
         then (updPlayer seat (\<lambda>pi. pi\<lparr>FoldedPF := True\<rparr>) h2,
               p1\<lparr>pfActions := pfActions p1 @ [\<lparr>seatID = seat, action = ActionFold, amount = 0\<rparr>]\<rparr>)
         else (h2, p1))"
| "handleEvent ts (PlayerEndTurn seatDigits amountDigits) (h, p) =
     (let seat = Atoi seatDigits; amt = AtoiChips amountDigits in
      if foldedThisHand p seat then (h, p)
      else
        let h1 = ensurePlayer seat h;
            act = classifyAction p seat amt;
            h2 = addAction seat \<lparr>Timestamp = ts, PlayerID = seat, Street = currentStreet p,
                                 Action = act, Amount = amt\<rparr> h1;
            p1 = (if streetBetAmount p <s amt then p\<lparr>streetBetAmount := amt\<rparr> else p);
            p2 = p1\<lparr>streetBets := (streetBets p1)(seat \<mapsto> amt)\<rparr>
        in if currentStreet p2 = StreetPreFlop
           then (h2, p2\<lparr>pfActions := pfActions p2 @ [\<lparr>seatID = seat, action = act, amount = amt\<rparr>]\<rparr>)
           else (h2, p2))"
| "handleEvent ts (ShowHoleCards seatDigits txt) (h, p) =
     (let seat = Atoi seatDigits in
      case parseCards txt of
        Inl err \<Rightarrow> (h, p)
      | Inr cards \<Rightarrow>
          let h1 = updPlayer seat (\<lambda>pi. pi\<lparr>ShowedDown := True\<rparr>) (ensurePlayer seat h);
              p1 = p\<lparr>currentStreet := StreetShowdown\<rparr>;
              keep =
                (if (case Players h1 seat of None \<Rightarrow> False
                     | Some pi \<Rightarrow> length (HoleCards pi) = 0)
                 then (updPlayer seat (\<lambda>pi. pi\<lparr>HoleCards := cards\<rparr>) h1, p1)
                 else (h1, p1))
          in case pendingLocalCards p1 of
               None \<Rightarrow> keep
             | Some pending \<Rightarrow>
                 if cardsMatch pending cards
                 then
                   assignLocalCards seat cards
                     (h1, if ResultLocalSeat (result p1) < 0
                          then p1\<lparr>result := (result p1)\<lparr>ResultLocalSeat := seat\<rparr>\<rparr> else p1)
                 else keep)"
| "handleEvent ts FoldToOne (h, p) = (h, p\<lparr>currentStreet := StreetShowdown\<rparr>)"
| "handleEvent ts (PotWinner seatDigits amountDigits) (h, p) =
     (let seat = Atoi seatDigits; amt = AtoiChips amountDigits in
      (if WinType h = [] then h\<lparr>WinType := ''showdown''\<rparr> else h,
       p\<lparr>pendingWinners := pendingWinners p @ [\<lparr>winSeat = seat, winAmount = amt\<rparr>]\<rparr>))"
| "handleEvent ts (PotManager seatDigits amountDigits) (h, p) =
     (let seat = Atoi seatDigits; amt = AtoiChips amountDigits in
      (h\<lparr>WinType := ''fold''\<rparr>,
       p\<lparr>pendingWinners := pendingWinners p @ [\<lparr>winSeat = seat, winAmount = amt\<rparr>]\<rparr>))"
| "handleEvent ts OtherMsg (h, p) = (h, p)"

text \<open>(\<open>New game\<close> is taken by \<open>processPokerEvent\<close> before the hand is looked at; its
  equation above only completes the patterns.)\<close>

section \<open>Pre-flop statistics\<close>

text \<open>
  The sources hold two copies of \<open>calculatePreflopStats\<close>: one inside the parser file and
  one in a file of its own, next to \<open>bbAmount\<close>. A Go package cannot hold both. The copy
  in its own file is the one the parser model runs at finalization: it is the one with the
  bet level started from the blinds and the \<open>raiserAtLevel\<close> table, as \<open>position.go\<close>
  likewise replaces the parser file's \<open>assignPositions\<close>. The copy inside the parser file
  follows it as \<open>calculatePreflopStats_v1\<close>.

  \<open>pfStep\<close> is one turn of the loop over \<open>p.pfActions\<close>; the loop state is the hand
  (whose players it marks), \<open>betLevel\<close> and \<open>raiserAtLevel\<close>.
\<close>

definition bbAmount :: "Hand \<Rightarrow> chips" where
  "bbAmount h =
     (if 0 \<le> BBSeat h then
        (case Players h (BBSeat h) of
           None \<Rightarrow> 0
         | Some pi \<Rightarrow>
            (case find (\<lambda>a. Action a = ActionBlindBB) (Actions pi) of
               None \<Rightarrow> 0
             | Some a \<Rightarrow> Amount a))
      else 0)"

definition pfStep :: "pfAction \<Rightarrow> Hand \<times> int \<times> (int \<rightharpoonup> int) \<Rightarrow> Hand \<times> int \<times> (int \<rightharpoonup> int)" where
  "pfStep act st =
     (case st of (h, betLevel, raiserAtLevel) \<Rightarrow>
       (case Players h (seatID act) of
          None \<Rightarrow> (h, betLevel, raiserAtLevel)
        | Some pi0 \<Rightarrow>
           let isSB = (seatID act = SBSeat h);
               isBB = (seatID act = BBSeat h);
               mark = (\<lambda>f. updPlayer (seatID act) f h)
           in
           if action act = ActionBlindSB then (h, 1, raiserAtLevel)
           else if action act = ActionBlindBB
           then (h, if betLevel < 2 then 2 else betLevel, raiserAtLevel)
           else if action act = ActionRaise \<or> action act = ActionBet
           then
             (let betLevel' = betLevel + 1;
                  raiserAtLevel' = raiserAtLevel(betLevel' \<mapsto> seatID act)
              in if betLevel' = 2
                 then (mark (\<lambda>pi. pi\<lparr>PFR := True, VPIP := True\<rparr>), betLevel', raiserAtLevel')
                 else if betLevel' = 3
                 then (mark (\<lambda>pi. pi\<lparr>ThreeBet := True, VPIP := True\<rparr>), betLevel', raiserAtLevel')
                 else (mark (\<lambda>pi. pi\<lparr>VPIP := True\<rparr>), betLevel', raiserAtLevel'))
           else if action act = ActionCall
           then
             (if isSB \<and> amount act \<le>s bbAmount h
              then (if 2 < betLevel
                    then (mark (\<lambda>pi. pi\<lparr>VPIP := True\<rparr>), betLevel, raiserAtLevel)
                    else (h, betLevel, raiserAtLevel))
              else if isBB \<and> betLevel \<le> 2 then (h, betLevel, raiserAtLevel)
              else (mark (\<lambda>pi. pi\<lparr>VPIP := True\<rparr>), betLevel, raiserAtLevel))
           else if action act = ActionCheck then (h, betLevel, raiserAtLevel)
           else if action act = ActionFold
           then
             (if 3 \<le> betLevel
              then (case raiserAtLevel (betLevel - 1) of
                      None \<Rightarrow> (h, betLevel, raiserAtLevel)
                    | Some raiserSeat \<Rightarrow>
                        if raiserSeat = seatID act
                        then (mark (\<lambda>pi. pi\<lparr>FoldTo3Bet := True\<rparr>), betLevel, raiserAtLevel)
                        else (h, betLevel, raiserAtLevel))
              else (h, betLevel, raiserAtLevel))
           else (h, betLevel, raiserAtLevel)))"

definition calculatePreflopStats :: "pfAction list \<Rightarrow> Hand \<Rightarrow> Hand" where
  "calculatePreflopStats pfs h =
     (if length pfs = 0 then h
      else
        let hasBlinds = (0 \<le> SBSeat h \<or> 0 \<le> BBSeat h);
            betLevel = (if hasBlinds then 1 else 1)
        in fst (fold pfStep pfs (h, betLevel, Map.empty)))"

text \<open>The copy of \<open>calculatePreflopStats\<close> inside the parser file: one turn of its loop
  (the state is the hand, \<open>betLevel\<close> and \<open>firstRaiserSeat\<close>) and the loop.\<close>

definition pfStep_v1 :: "pfAction \<Rightarrow> Hand \<times> int \<times> int \<Rightarrow> Hand \<times> int \<times> int" where
  "pfStep_v1 act st =
     (case st of (h, betLevel, firstRaiserSeat) \<Rightarrow>
       (case Players h (seatID act) of
          None \<Rightarrow> (h, betLevel, firstRaiserSeat)
        | Some pi0 \<Rightarrow>
           let isBB = (seatID act = BBSeat h);
               isSB = (seatID act = SBSeat h);
               mark = (\<lambda>f. updPlayer (seatID act) f h)
           in
           if action act = ActionBlindSB \<or> action act = ActionBlindBB
           then (h, betLevel, firstRaiserSeat)
           else if action act = ActionBet \<or> action act = ActionRaise \<or> action act = ActionAllIn
           then
             (let betLevel' = betLevel + 1
              in if betLevel' = 2
                 then (mark (\<lambda>pi. pi\<lparr>PFR := True, VPIP := True\<rparr>), betLevel', seatID act)
                 else if betLevel' = 3
                 then (mark (\<lambda>pi. pi\<lparr>ThreeBet := True, VPIP := True\<rparr>), betLevel', firstRaiserSeat)
                 else (mark (\<lambda>pi. pi\<lparr>VPIP := True\<rparr>), betLevel', firstRaiserSeat))
           else if action act = ActionCall
           then
             (if isSB \<or> \<not> isBB
              then (mark (\<lambda>pi. pi\<lparr>VPIP := True\<rparr>), betLevel, firstRaiserSeat)
              else if isBB \<and> 0 <s amount act
              then (mark (\<lambda>pi. pi\<lparr>VPIP := True\<rparr>), betLevel, firstRaiserSeat)
              else (h, betLevel, firstRaiserSeat))
           else if action act = ActionCheck then (h, betLevel, firstRaiserSeat)
           else if action act = ActionFold
           then
             (if 3 \<le> betLevel \<and> seatID act = firstRaiserSeat
              then (mark (\<lambda>pi. pi\<lparr>FoldTo3Bet := True\<rparr>), betLevel, firstRaiserSeat)
              else (h, betLevel, firstRaiserSeat))
           else (h, betLevel, firstRaiserSeat)))"

definition calculatePreflopStats_v1 :: "pfAction list \<Rightarrow> Hand \<Rightarrow> Hand" where
  "calculatePreflopStats_v1 pfs h =
     (if length pfs = 0 then h else fst (fold pfStep_v1 pfs (h, 1, - 1)))"

section \<open>Finalization and the reader\<close>

text \<open>One turn of the loop over \<open>p.pendingWinners\<close>; the second component is
  \<open>totalPot\<close>.\<close>

definition applyWinner :: "pendingWin \<Rightarrow> Hand \<times> chips \<Rightarrow> Hand \<times> chips" where
  "applyWinner pw ht =
     (case ht of (h, totalPot) \<Rightarrow>
        let h1 = ensurePlayer (winSeat pw) h;
            h2 = updPlayer (winSeat pw) (\<lambda>pi. pi\<lparr>Won := True\<rparr>) h1;
            h3 = updPlayer (winSeat pw) (\<lambda>pi. pi\<lparr>PotWon := PotWon pi + winAmount pw\<rparr>) h2
        in (h3\<lparr>WinnerSeat := winSeat pw\<rparr>, totalPot + winAmount pw))"

text \<open>
  The body of \<open>finalizeCurrentHand\<close> from the pending winners to \<open>IsComplete\<close>, as a
  function of the hand: \<open>finalizeHand h p\<close> is the hand that \<open>finalizeCurrentHand\<close> then
  appends to the result or drops. As in the source, \<open>assignPositions\<close> follows
  \<open>NumPlayers\<close> directly.
\<close>

definition finalizeHand :: "Hand \<Rightarrow> Parser \<Rightarrow> Hand" where
  "finalizeHand h p =
     (let ht = fold applyWinner (pendingWinners p) (h, 0);
          h1 = (fst ht)\<lparr>TotalPot := snd ht\<rparr>;
          h2 = (if WinType h1 = []
                then (if 3 \<le> length (CommunityCards h1) then h1\<lparr>WinType := ''showdown''\<rparr>
                      else h1\<lparr>WinType := ''fold''\<rparr>)
                else h1);
          h3 = h2\<lparr>NumPlayers := int (length (ActiveSeats h2))\<rparr>;
          h4 = assignPositions h3;
          h5 = calculatePreflopStats (pfActions p) h4;
          h6 = h5\<lparr>EndTime := lastTimestamp p\<rparr>
      in h6\<lparr>IsComplete := (0 < length (pendingWinners p) \<or> 0 < length (CommunityCards h6))\<rparr>)"

text \<open>The first statement of \<open>finalizeCurrentHand\<close>: local cards that are still pending go
  to the known local seat.\<close>

definition finalizeLocalCards :: "Hand \<Rightarrow> Parser \<Rightarrow> Hand \<times> Parser" where
  "finalizeLocalCards h0 p =
     (case pendingLocalCards p of
        None \<Rightarrow> (h0, p)
      | Some pending \<Rightarrow>
          if 0 \<le> ResultLocalSeat (result p)
          then assignLocalCards (ResultLocalSeat (result p)) pending (h0, p)
          else (h0, p))"

definition finalizeCurrentHand :: "Parser \<Rightarrow> Parser" where
  "finalizeCurrentHand p =
     (case currentHand p of
        None \<Rightarrow> p
      | Some h0 \<Rightarrow>
          let hp = finalizeLocalCards h0 p;
              p1 = snd hp;
              h = finalizeHand (fst hp) p1;
              localSeat = LocalPlayerSeat h;
              p2 = (if 0 \<le> localSeat
                    then (case Players h localSeat of
                            None \<Rightarrow> p1
                          | Some pi \<Rightarrow> p1\<lparr>result := (result p1)\<lparr>Hands := Hands (result p1) @ [h]\<rparr>\<rparr>)
                    else p1)
          in p2\<lparr>currentHand := None, pendingLocalCards := None\<rparr>)"

definition processPokerEvent :: "timestamp \<Rightarrow> msg \<Rightarrow> Parser \<Rightarrow> Parser" where
  "processPokerEvent ts m p =
     (if m = NewGame then startNewHand ts (finalizeCurrentHand p)
      else
        case currentHand p of
          None \<Rightarrow> p
        | Some h \<Rightarrow> (case handleEvent ts m (h, p) of (h', p') \<Rightarrow> p'\<lparr>currentHand := Some h'\<rparr>))"

fun ParseLine :: "logline \<Rightarrow> Parser \<Rightarrow> Parser" where
  "ParseLine NoTimestamp p = p"
| "ParseLine (Joining ts isPokerWorld) p =
     (let p1 = p\<lparr>lastTimestamp := ts\<rparr>
      in p1\<lparr>inPokerWorld := isPokerWorld,
            result := (result p1)\<lparr>InPokerWorld := isPokerWorld\<rparr>\<rparr>)"
| "ParseLine (OnLeftRoom ts) p =
     (let p1 = p\<lparr>lastTimestamp := ts\<rparr>;
          p2 = (if inPokerWorld p1 then finalizeCurrentHand p1 else p1)
      in p2\<lparr>inPokerWorld := False, result := (result p2)\<lparr>InPokerWorld := False\<rparr>\<rparr>)"
| "ParseLine (PokerMsg ts m) p = processPokerEvent ts m (p\<lparr>lastTimestamp := ts\<rparr>)"

text \<open>\<open>ParseLines\<close> is the ingest loop on the lines it is given (\<open>ImportLines\<close> of the
  service, and the body of the loop of \<open>ParseReader\<close>).\<close>

definition ParseLines :: "logline list \<Rightarrow> Parser \<Rightarrow> Parser" where
  "ParseLines ls p = fold ParseLine ls p"

text \<open>
  \<open>ParseReader\<close> reads its input through a \<open>bufio.Scanner\<close> with a buffer of 1 MiB. The
  input is modelled as the list of its lines, \<open>None\<close> standing for a line the scanner
  cannot deliver (a line longer than the buffer, or a read error): there \<open>Scan\<close> returns
  false, the loop ends, and the lines after it are never read. \<open>scannedLines\<close> are the
  lines the loop \<open>for scanner.Scan()\<close> sees. \<open>ParseReader\<close> runs the loop on a fresh
  parser, finalizes the hand in progress and returns the result together with
  \<open>scanner.Err()\<close>, modelled by whether it is an error.
\<close>

fun scannedLines :: "logline option list \<Rightarrow> logline list" where
  "scannedLines [] = []"
| "scannedLines (None # rest) = []"
| "scannedLines (Some l # rest) = l # scannedLines rest"

definition ParseReader :: "logline option list \<Rightarrow> ParseResult \<times> bool" where
  "ParseReader r =
     (result (finalizeCurrentHand (ParseLines (scannedLines r) NewParser)), None \<in> set r)"


section \<open>Notions used in the statements\<close>

text \<open>A property \<open>Q\<close> of every hand in the result and a property \<open>J\<close> of the hand in
  progress, as one invariant of the parser state.\<close>

definition reachInv :: "(Hand \<Rightarrow> bool) \<Rightarrow> (Hand \<Rightarrow> Parser \<Rightarrow> bool) \<Rightarrow> Parser \<Rightarrow> bool" where
  "reachInv Q J p \<longleftrightarrow>
     (\<forall>h\<in>set (Hands (result p)). Q h) \<and> (\<forall>h. currentHand p = Some h \<longrightarrow> J h p)"

text \<open>The kind the specification assigns to a voluntary action with committed amount
  \<open>a\<close> when the highest bet of the street is \<open>streetBet\<close>.\<close>

definition recordedKind :: "chips \<Rightarrow> chips \<Rightarrow> ActionType" where
  "recordedKind streetBet a =
     (if a = 0 then ActionCheck
      else if streetBet = 0 then ActionBet
      else if streetBet <s a then ActionRaise
      else ActionCall)"

text \<open>The actions recorded for a seat (none when the seat has no entry).\<close>

definition actionsOf :: "Hand \<Rightarrow> int \<Rightarrow> PlayerAction list" where
  "actionsOf h seat = (case Players h seat of None \<Rightarrow> [] | Some pi \<Rightarrow> Actions pi)"

subsection \<open>Log excerpts\<close>

text \<open>A reveal in the other order: local cards \<open>7d, 9c\<close> drawn before any blind, then
  seat 8 shows \<open>9c, 7d\<close>.\<close>

definition linesReversedReveal :: "logline list" where
  "linesReversedReveal =
     [PokerMsg 1 NewGame, PokerMsg 2 (DrawLocalHole ''7d, 9c''),
      PokerMsg 3 (ShowHoleCards 8 ''9c, 7d'')]"

text \<open>Scenario S2 of the specification: blinds by seats 2 and 3, seat 4 raises to 60,
  seat 5 re-raises to 180, seat 4 folds. The local cards are drawn after the blinds.\<close>

definition linesS2 :: "logline list" where
  "linesS2 =
     [PokerMsg 1 NewGame, PokerMsg 2 (SBBet 2 10), PokerMsg 3 (BBBet 3 20),
      PokerMsg 4 (DrawLocalHole ''Ah, Kd''), PokerMsg 5 (PlayerEndTurn 4 60),
      PokerMsg 6 (PlayerEndTurn 5 180), PokerMsg 7 (PlayerFolded 4)]"

text \<open>A hand in progress after the blinds (seat 2 posts 10, seat 3 posts 20, local cards
  drawn), on which the next line is tried.\<close>

definition linesBlinds :: "logline list" where
  "linesBlinds =
     [PokerMsg 1 NewGame, PokerMsg 2 (SBBet 2 10), PokerMsg 3 (BBBet 3 20),
      PokerMsg 4 (DrawLocalHole ''Ah, Kd'')]"

text \<open>Scenario S6 of the specification: seat 2 posts the small blind 10, seat 3 the big
  blind 20, then seat 2 ends its turn with 20 committed and nobody has raised.\<close>

definition linesS6 :: "logline list" where
  "linesS6 = linesBlinds @ [PokerMsg 5 (PlayerEndTurn 2 20)]"

text \<open>The second half of S6: seat 4 raises to 60 first, then seats 2 and 3 end their turns
  with 60. And the blinds followed by three calls of 20: seat 4, then the small blind
  completing, then the big blind closing the action.\<close>

definition linesS6Raise :: "logline list" where
  "linesS6Raise =
     linesBlinds @ [PokerMsg 5 (PlayerEndTurn 4 60), PokerMsg 6 (PlayerEndTurn 2 60),
                    PokerMsg 7 (PlayerEndTurn 3 60)]"

definition linesLimpers :: "logline list" where
  "linesLimpers =
     linesBlinds @ [PokerMsg 5 (PlayerEndTurn 4 20), PokerMsg 6 (PlayerEndTurn 2 20),
                    PokerMsg 7 (PlayerEndTurn 3 20)]"

text \<open>Whether a seat is marked VPIP; and the bet level of the pre-flop pass
  (\<open>calculatePreflopStats\<close>) once its loop has gone through the actions \<open>pfs\<close>.\<close>

definition vpipOf :: "Hand \<Rightarrow> int \<Rightarrow> bool" where
  "vpipOf h s = (case Players h s of None \<Rightarrow> False | Some pi \<Rightarrow> VPIP pi)"

definition betLevelAfter :: "pfAction list \<Rightarrow> Hand \<Rightarrow> int" where
  "betLevelAfter pfs h = fst (snd (fold pfStep pfs (h, 1, Map.empty)))"

text \<open>The exclusions of the specification for a pre-flop call by \<open>seat\<close> with amount \<open>a\<close> at
  bet level \<open>L\<close>: the small blind completing to the big blind, the big blind closing the
  action.\<close>

definition callExcluded :: "Hand \<Rightarrow> int \<Rightarrow> chips \<Rightarrow> int \<Rightarrow> bool" where
  "callExcluded h seat a L \<longleftrightarrow>
     (seat = SBSeat h \<and> a \<le>s bbAmount h \<and> L \<le> 2) \<or> (seat = BBSeat h \<and> L \<le> 2)"

text \<open>The hand and the pot total after the loop of \<open>finalizeCurrentHand\<close> over the pending
  winners.\<close>

definition afterWinners :: "Hand \<Rightarrow> Parser \<Rightarrow> Hand \<times> chips" where
  "afterWinners h p = fold applyWinner (pendingWinners p) (h, 0)"

text \<open>When \<open>finalizeCurrentHand\<close> appends the hand in progress \<open>h0\<close> to the result: the
  local seat is known and has an entry once the pending local cards and the pending
  winners are applied. Otherwise the hand is dropped.\<close>

definition handStored :: "Hand \<Rightarrow> Parser \<Rightarrow> bool" where
  "handStored h0 p \<longleftrightarrow>
     (pendingLocalCards p \<noteq> None \<and> 0 \<le> ResultLocalSeat (result p)) \<or>
     (0 \<le> LocalPlayerSeat h0 \<and>
        (Players h0 (LocalPlayerSeat h0) \<noteq> None \<or>
         LocalPlayerSeat h0 \<in> winSeat ` set (pendingWinners p)))"

text \<open>No action recorded in a hand is an all-in; the same for the hand in progress
  together with the pre-flop buffer.\<close>

definition noAllIn :: "Hand \<Rightarrow> bool" where
  "noAllIn h \<longleftrightarrow> (\<forall>s. \<forall>a\<in>set (actionsOf h s). Action a \<noteq> ActionAllIn)"

definition noAllInPending :: "Hand \<Rightarrow> Parser \<Rightarrow> bool" where
  "noAllInPending h p \<longleftrightarrow> noAllIn h \<and> (\<forall>a\<in>set (pfActions p). action a \<noteq> ActionAllIn)"

text \<open>\<open>isAggressivePreflop\<close> of the opportunity analyzer (\<open>opportunities.go\<close>).\<close>

definition isAggressivePreflop :: "ActionType \<Rightarrow> bool" where
  "isAggressivePreflop a \<longleftrightarrow> a = ActionBet \<or> a = ActionRaise \<or> a = ActionAllIn"

text \<open>The pot a seat has won, whether it is marked as a winner, and the sum of the pending
  wins of a seat.\<close>

definition potWon :: "Hand \<Rightarrow> int \<Rightarrow> chips" where
  "potWon h s = (case Players h s of None \<Rightarrow> 0 | Some pi \<Rightarrow> PotWon pi)"

definition wonIn :: "Hand \<Rightarrow> int \<Rightarrow> bool" where
  "wonIn h s = (case Players h s of None \<Rightarrow> False | Some pi \<Rightarrow> Won pi)"

definition potWonBy :: "pendingWin list \<Rightarrow> int \<Rightarrow> chips" where
  "potWonBy pws s = sum_list (map winAmount (filter (\<lambda>pw. winSeat pw = s) pws))"

text \<open>Before finalization no seat of the hand in progress is marked as a winner.\<close>

definition noWinnerYet :: "Hand \<Rightarrow> Parser \<Rightarrow> bool" where
  "noWinnerYet h p \<longleftrightarrow> (\<forall>s. potWon h s = 0) \<and> (\<forall>s. \<not> wonIn h s) \<and> WinnerSeat h = - 1"

text \<open>The total pot of a hand is the sum of the pots won by its recorded winners.\<close>

definition potConsistent :: "Hand \<Rightarrow> bool" where
  "potConsistent h \<longleftrightarrow>
     finite {s. wonIn h s} \<and> TotalPot h = (\<Sum>s\<in>{s. wonIn h s}. potWon h s)"

text \<open>A win type is only set once a winner line has been seen; and the amended invariant
  of showdown hands.\<close>

definition winTypeFromWinner :: "Hand \<Rightarrow> Parser \<Rightarrow> bool" where
  "winTypeFromWinner h p \<longleftrightarrow> (WinType h \<noteq> [] \<longrightarrow> pendingWinners p \<noteq> [])"

definition showdownJustified :: "Hand \<Rightarrow> bool" where
  "showdownJustified h \<longleftrightarrow>
     (WinType h = ''showdown'' \<longrightarrow> (\<exists>s. wonIn h s) \<or> 3 \<le> length (CommunityCards h))"

text \<open>A winner line with no board; six community cards; a hand left after the flop.\<close>

definition linesWinnerNoBoard :: "logline list" where
  "linesWinnerNoBoard =
     [PokerMsg 1 NewGame, PokerMsg 2 (SBBet 2 10), PokerMsg 3 (DrawLocalHole ''Ah, Kd''),
      PokerMsg 4 (PotWinner 2 30)]"

definition linesSixCards :: "logline list" where
  "linesSixCards =
     [PokerMsg 1 NewGame, PokerMsg 2 (SBBet 2 10), PokerMsg 3 (DrawLocalHole ''Ah, Kd''),
      PokerMsg 4 (NewCommunity ''2h''), PokerMsg 4 (NewCommunity ''3h''),
      PokerMsg 4 (NewCommunity ''4h''), PokerMsg 5 (NewCommunity ''5h''),
      PokerMsg 6 (NewCommunity ''6h''), PokerMsg 7 (NewCommunity ''7h''),
      PokerMsg 8 (PotWinner 2 30)]"

definition linesFlop :: "logline list" where
  "linesFlop =
     [PokerMsg 1 NewGame, PokerMsg 2 (SBBet 2 10), PokerMsg 3 (DrawLocalHole ''Ah, Kd''),
      PokerMsg 4 (NewCommunity ''2h''), PokerMsg 4 (NewCommunity ''3h''),
      PokerMsg 4 (NewCommunity ''4h''), OnLeftRoom 5]"

text \<open>A split pot: seat 2 wins 30 and 15, seat 3 wins 30.\<close>

definition linesSplitPot :: "logline list" where
  "linesSplitPot =
     [PokerMsg 1 NewGame, PokerMsg 2 (SBBet 2 10), PokerMsg 3 (DrawLocalHole ''Ah, Kd''),
      PokerMsg 4 (PotWinner 2 30), PokerMsg 5 (PotWinner 3 30), PokerMsg 6 (PotWinner 2 15)]"

text \<open>The seat of the first voluntary pre-flop action (fold, check, call, bet, raise or
  all-in) of the buffer.\<close>

definition isVoluntary :: "pfAction \<Rightarrow> bool" where
  "isVoluntary a \<longleftrightarrow>
     action a \<in> {ActionFold, ActionCheck, ActionCall, ActionBet, ActionRaise, ActionAllIn}"

definition firstVoluntary :: "pfAction list \<Rightarrow> int option" where
  "firstVoluntary pfs = map_option seatID (find isVoluntary pfs)"

text \<open>What the parser maintains about the seats of a hand: the seats of the buffered
  pre-flop actions are seat numbers (not negative) of active seats, and a recorded blind
  seat is an active seat.\<close>

definition seatsKnown :: "Hand \<Rightarrow> pfAction list \<Rightarrow> bool" where
  "seatsKnown h pfs \<longleftrightarrow>
     (\<forall>a\<in>set pfs. 0 \<le> seatID a \<and> seatID a \<in> set (ActiveSeats h)) \<and>
     (0 \<le> SBSeat h \<longrightarrow> SBSeat h \<in> set (ActiveSeats h)) \<and>
     (0 \<le> BBSeat h \<longrightarrow> BBSeat h \<in> set (ActiveSeats h))"

definition seatsTracked :: "Hand \<Rightarrow> Parser \<Rightarrow> bool" where
  "seatsTracked h p \<longleftrightarrow>
     seatsKnown h (pfActions p) \<and> (\<forall>s. Players h s \<noteq> None \<longrightarrow> s \<in> set (ActiveSeats h))"

text \<open>Scenario S5 of the specification: a hand with no blind line in which seat 3 bets 40
  first and seats 4 and 2 fold, so the active seats are 2, 3, 4. The local cards are drawn
  at the start and shown by seat 3 at the end, which makes seat 3 the local seat, so that
  the hand is kept at finalization. And a hand with seat 3 alone.\<close>

definition linesS5 :: "logline list" where
  "linesS5 =
     [PokerMsg 1 NewGame, PokerMsg 2 (DrawLocalHole ''Ah, Kd''),
      PokerMsg 3 (PlayerEndTurn 3 40), PokerMsg 4 (PlayerFolded 4),
      PokerMsg 5 (PlayerFolded 2), PokerMsg 6 (ShowHoleCards 3 ''Ah, Kd'')]"

definition linesOneSeat :: "logline list" where
  "linesOneSeat = [PokerMsg 1 NewGame, PokerMsg 2 (PlayerEndTurn 3 40)]"

text \<open>Scenario S4 of the specification: the local cards \<open>7d, 9c\<close> are drawn after seat 2
  posted the small blind, then seat 8 shows \<open>7d, 9c\<close>.\<close>

definition linesS4 :: "logline list" where
  "linesS4 =
     [PokerMsg 1 NewGame, PokerMsg 2 (SBBet 2 10), PokerMsg 3 (DrawLocalHole ''7d, 9c''),
      PokerMsg 4 (ShowHoleCards 8 ''7d, 9c'')]"

text \<open>Whether a seat is marked PFR, and whether it is marked fold-to-3-bet.\<close>

definition pfrOf :: "Hand \<Rightarrow> int \<Rightarrow> bool" where
  "pfrOf h s = (case Players h s of None \<Rightarrow> False | Some pi \<Rightarrow> PFR pi)"

definition foldTo3BetOf :: "Hand \<Rightarrow> int \<Rightarrow> bool" where
  "foldTo3BetOf h s = (case Players h s of None \<Rightarrow> False | Some pi \<Rightarrow> FoldTo3Bet pi)"

text \<open>The invariant of the loop of \<open>calculatePreflopStats_v1\<close>: the first raiser, once
  there is one, is marked PFR, and every seat marked fold-to-3-bet is marked PFR.\<close>

definition v1Inv :: "Hand \<times> int \<times> int \<Rightarrow> bool" where
  "v1Inv st \<longleftrightarrow>
     (case st of (h, L, frs) \<Rightarrow>
        (0 \<le> frs \<longrightarrow> pfrOf h frs) \<and> (\<forall>s. foldTo3BetOf h s \<longrightarrow> pfrOf h s))"

section \<open>Lemmas about the model\<close>


lemma Players_updPlayer [simp]:
  "Players (updPlayer s f h) s' = (if s' = s then map_option f (Players h s) else Players h s')"
  by (simp add: updPlayer_def split: option.split)

lemma updPlayer_only_Players: "updPlayer s f h = h\<lparr>Players := Players (updPlayer s f h)\<rparr>"
  by (simp add: updPlayer_def split: option.split)

lemma updPlayer_fields [simp]:
  "ActiveSeats (updPlayer s f h) = ActiveSeats h"
  "WinType (updPlayer s f h) = WinType h"
  "CommunityCards (updPlayer s f h) = CommunityCards h"
  "SBSeat (updPlayer s f h) = SBSeat h"
  "BBSeat (updPlayer s f h) = BBSeat h"
  "LocalPlayerSeat (updPlayer s f h) = LocalPlayerSeat h"
  "WinnerSeat (updPlayer s f h) = WinnerSeat h"
  "TotalPot (updPlayer s f h) = TotalPot h"
  by (simp_all add: updPlayer_def split: option.split)

lemma Players_ensurePlayer [simp]:
  "Players (ensurePlayer s h) s' =
     (if s' = s then Some (case Players h s of None \<Rightarrow> newPlayerHandInfo s | Some pi \<Rightarrow> pi)
      else Players h s')"
  by (simp add: ensurePlayer_def split: option.split)

lemma ensurePlayer_fields [simp]:
  "WinType (ensurePlayer s h) = WinType h"
  "CommunityCards (ensurePlayer s h) = CommunityCards h"
  "SBSeat (ensurePlayer s h) = SBSeat h"
  "BBSeat (ensurePlayer s h) = BBSeat h"
  "LocalPlayerSeat (ensurePlayer s h) = LocalPlayerSeat h"
  "WinnerSeat (ensurePlayer s h) = WinnerSeat h"
  "TotalPot (ensurePlayer s h) = TotalPot h"
  by (simp_all add: ensurePlayer_def split: option.split)

lemma ActiveSeats_ensurePlayer:
  "ActiveSeats (ensurePlayer s h) =
     (if Players h s = None \<and> s \<notin> set (ActiveSeats h) then ActiveSeats h @ [s] else ActiveSeats h)"
  by (simp add: ensurePlayer_def split: option.split)

lemma Players_addAction [simp]:
  "Players (addAction s a h) s' =
     (if s' = s then map_option (\<lambda>pi. pi\<lparr>Actions := Actions pi @ [a]\<rparr>) (Players h s) else Players h s')"
  by (simp add: addAction_def)

lemma addAction_fields [simp]:
  "ActiveSeats (addAction s a h) = ActiveSeats h"
  "WinType (addAction s a h) = WinType h"
  "CommunityCards (addAction s a h) = CommunityCards h"
  "SBSeat (addAction s a h) = SBSeat h"
  "BBSeat (addAction s a h) = BBSeat h"
  "LocalPlayerSeat (addAction s a h) = LocalPlayerSeat h"
  "WinnerSeat (addAction s a h) = WinnerSeat h"
  "TotalPot (addAction s a h) = TotalPot h"
  by (simp_all add: addAction_def)


lemma assignPositionsLoop_proj:
  assumes "\<And>pi x. g (pi\<lparr>Position := x\<rparr>) = g pi"
  shows "map_option g (Players (assignPositionsLoop ps i seats h) s) = map_option g (Players h s)"
  by (induction ps i seats h rule: assignPositionsLoop.induct) (simp_all add: assms option.map_comp comp_def)

lemma updPlayer_only: "\<exists>P. updPlayer s f h = h\<lparr>Players := P\<rparr>"
  by (cases "Players h s") (auto simp: updPlayer_def intro: exI[of _ "Players h"])

lemma assignPositionsLoop_only: "\<exists>P. assignPositionsLoop ps i seats h = h\<lparr>Players := P\<rparr>"
proof (induction ps i seats h rule: assignPositionsLoop.induct)
  case (1 positions i h)
  show ?case by (auto intro: exI[of _ "Players h"])
next
  case (2 positions i seat rest h)
  let ?h1 = "if i < length positions then updPlayer seat (\<lambda>pi. pi\<lparr>Position := positions ! i\<rparr>) h else h"
  obtain P1 where P1: "?h1 = h\<lparr>Players := P1\<rparr>"
    using updPlayer_only[of seat _ h] by (cases "i < length positions") (auto intro: that[of "Players h"])
  obtain P where "assignPositionsLoop positions (Suc i) rest ?h1 = ?h1\<lparr>Players := P\<rparr>"
    using "2.IH" by blast
  then have "assignPositionsLoop positions i (seat # rest) h = h\<lparr>Players := P\<rparr>"
    by (simp only: assignPositionsLoop.simps P1) simp
  then show ?case by blast
qed

lemma assignPositions_only: "\<exists>P. assignPositions h = h\<lparr>Players := P\<rparr>"
proof -
  have triv: "\<exists>P. h = h\<lparr>Players := P\<rparr>" by (auto intro: exI[of _ "Players h"])
  show ?thesis
    unfolding assignPositions_def Let_def
    using triv assignPositionsLoop_only by (auto split: option.split)
qed

lemma assignPositions_proj:
  assumes "\<And>pi x. g (pi\<lparr>Position := x\<rparr>) = g pi"
  shows "map_option g (Players (assignPositions h) s) = map_option g (Players h s)"
  unfolding assignPositions_def Let_def
  by (simp add: assignPositionsLoop_proj[of g, OF assms] split: option.split)





lemma pfStep_only: "\<exists>P. fst (pfStep act (h, L, r)) = h\<lparr>Players := P\<rparr>"
proof (cases "Players h (seatID act)")
  case None
  then show ?thesis by (auto simp: pfStep_def intro: exI[of _ "Players h"])
next
  case (Some pi0)
  have triv: "\<exists>P. h = h\<lparr>Players := P\<rparr>" by (auto intro: exI[of _ "Players h"])
  show ?thesis
    by (cases "action act") (simp_all add: pfStep_def Let_def Some triv updPlayer_only split: option.split)
qed

lemma pfStep_proj:
  assumes "\<And>pi. g (pi\<lparr>VPIP := True\<rparr>) = g pi" "\<And>pi. g (pi\<lparr>PFR := True\<rparr>) = g pi"
    "\<And>pi. g (pi\<lparr>ThreeBet := True\<rparr>) = g pi" "\<And>pi. g (pi\<lparr>FoldTo3Bet := True\<rparr>) = g pi"
  shows "map_option g (Players (fst (pfStep act (h, L, r))) s) = map_option g (Players h s)"
proof (cases "Players h (seatID act)")
  case None
  then show ?thesis by (simp add: pfStep_def)
next
  case (Some pi0)
  show ?thesis
    by (cases "action act")
       (simp_all add: pfStep_def Let_def Some assms option.map_comp comp_def split: option.split)
qed


lemma fold_pfStep_only: "\<exists>P. fst (fold pfStep pfs (h, L, r)) = h\<lparr>Players := P\<rparr>"
proof (induction pfs arbitrary: h L r)
  case Nil
  show ?case by (auto intro: exI[of _ "Players h"])
next
  case (Cons act pfs)
  obtain h1 L1 r1 where st: "pfStep act (h, L, r) = (h1, L1, r1)" by (cases "pfStep act (h, L, r)") auto
  obtain P1 where P1: "h1 = h\<lparr>Players := P1\<rparr>" using pfStep_only[of act h L r] st by auto
  obtain P where "fst (fold pfStep pfs (h1, L1, r1)) = h1\<lparr>Players := P\<rparr>" using Cons.IH by blast
  then have "fst (fold pfStep (act # pfs) (h, L, r)) = h\<lparr>Players := P\<rparr>"
    by (simp add: st P1)
  then show ?case by blast
qed

lemma fold_pfStep_proj:
  assumes "\<And>pi. g (pi\<lparr>VPIP := True\<rparr>) = g pi" "\<And>pi. g (pi\<lparr>PFR := True\<rparr>) = g pi"
    "\<And>pi. g (pi\<lparr>ThreeBet := True\<rparr>) = g pi" "\<And>pi. g (pi\<lparr>FoldTo3Bet := True\<rparr>) = g pi"
  shows "map_option g (Players (fst (fold pfStep pfs (h, L, r))) s) = map_option g (Players h s)"
proof (induction pfs arbitrary: h L r)
  case Nil
  show ?case by simp
next
  case (Cons act pfs)
  obtain h1 L1 r1 where st: "pfStep act (h, L, r) = (h1, L1, r1)" by (cases "pfStep act (h, L, r)") auto
  have "map_option g (Players h1 s) = map_option g (Players h s)"
    using pfStep_proj[of g act h L r s, OF assms] st by simp
  then show ?case using Cons.IH[of h1 L1 r1] by (simp add: st)
qed

lemma calculatePreflopStats_only: "\<exists>P. calculatePreflopStats pfs h = h\<lparr>Players := P\<rparr>"
  unfolding calculatePreflopStats_def Let_def
  using fold_pfStep_only[of pfs h 1 Map.empty] by (auto intro: exI[of _ "Players h"])

lemma calculatePreflopStats_proj:
  assumes "\<And>pi. g (pi\<lparr>VPIP := True\<rparr>) = g pi" "\<And>pi. g (pi\<lparr>PFR := True\<rparr>) = g pi"
    "\<And>pi. g (pi\<lparr>ThreeBet := True\<rparr>) = g pi" "\<And>pi. g (pi\<lparr>FoldTo3Bet := True\<rparr>) = g pi"
  shows "map_option g (Players (calculatePreflopStats pfs h) s) = map_option g (Players h s)"
  unfolding calculatePreflopStats_def Let_def
  using fold_pfStep_proj[of g pfs h 1 Map.empty s, OF assms] by simp




lemma ParseLines_snoc: "ParseLines (ls @ [l]) p = ParseLine l (ParseLines ls p)"
  by (simp add: ParseLines_def)

lemma reachInv_finalize:
  assumes loc: "\<And>s c h p. J h p \<Longrightarrow>
        J (fst (assignLocalCards s c (h, p))) (snd (assignLocalCards s c (h, p)))"
    and fin: "\<And>h p. J h p \<Longrightarrow> Q (finalizeHand h p)"
    and inv: "reachInv Q J p"
  shows "reachInv Q J (finalizeCurrentHand p)"
proof (cases "currentHand p")
  case None
  then show ?thesis using inv by (simp add: finalizeCurrentHand_def)
next
  case (Some h0)
  define hp where "hp = finalizeLocalCards h0 p"
  have J0: "J h0 p" using inv Some by (simp add: reachInv_def)
  have J1: "J (fst hp) (snd hp)"
  proof (cases "hp = (h0, p)")
    case True
    then show ?thesis using J0 by simp
  next
    case False
    then obtain s c where "hp = assignLocalCards s c (h0, p)"
      unfolding hp_def finalizeLocalCards_def by (auto split: option.splits if_splits)
    then show ?thesis using loc[OF J0, of s c] by simp
  qed
  have Q1: "Q (finalizeHand (fst hp) (snd hp))" using fin[OF J1] .
  have res: "Hands (result (snd hp)) = Hands (result p)"
    unfolding hp_def finalizeLocalCards_def by (auto simp: assignLocalCards_def split: option.split)
  have old: "\<forall>h\<in>set (Hands (result p)). Q h" using inv by (simp add: reachInv_def)
  have eq: "finalizeCurrentHand p =
     (let p1 = snd hp; h = finalizeHand (fst hp) p1; localSeat = LocalPlayerSeat h;
          p2 = (if 0 \<le> localSeat
                then (case Players h localSeat of
                        None \<Rightarrow> p1
                      | Some pi \<Rightarrow> p1\<lparr>result := (result p1)\<lparr>Hands := Hands (result p1) @ [h]\<rparr>\<rparr>)
                else p1)
      in p2\<lparr>currentHand := None, pendingLocalCards := None\<rparr>)"
    by (simp add: finalizeCurrentHand_def Some hp_def Let_def)
  show ?thesis
    unfolding reachInv_def eq Let_def
    using Q1 old res by (auto split: option.split)
qed

lemma reachInv_rule:
  fixes Q :: "Hand \<Rightarrow> bool" and J :: "Hand \<Rightarrow> Parser \<Rightarrow> bool"
  assumes start: "\<And>ts p h. currentHand (startNewHand ts p) = Some h \<Longrightarrow> J h (startNewHand ts p)"
    and step: "\<And>ts m h p. J h p \<Longrightarrow>
        J (fst (handleEvent ts m (h, p))) (snd (handleEvent ts m (h, p)))"
    and loc: "\<And>s c h p. J h p \<Longrightarrow>
        J (fst (assignLocalCards s c (h, p))) (snd (assignLocalCards s c (h, p)))"
    and fin: "\<And>h p. J h p \<Longrightarrow> Q (finalizeHand h p)"
    and frame: "\<And>h p ts c b b'.
       J h (p\<lparr>lastTimestamp := ts, currentHand := c, inPokerWorld := b,
              result := (result p)\<lparr>InPokerWorld := b'\<rparr>\<rparr>) = J h p"
  shows "reachInv Q J (ParseLines ls NewParser)"
proof (induction ls rule: rev_induct)
  case Nil
  show ?case by (simp add: ParseLines_def reachInv_def NewParser_def)
next
  case (snoc l ls)
  define p where "p = ParseLines ls NewParser"
  have inv: "reachInv Q J p" using snoc by (simp add: p_def)
  have frame_ts: "J h (q\<lparr>lastTimestamp := ts\<rparr>) = J h q" for h q ts
    using frame[where h=h and p=q and ts=ts and c="currentHand q" and b="inPokerWorld q" and b'="InPokerWorld (result q)"] by simp
  have frame_cur: "J h (q\<lparr>currentHand := c\<rparr>) = J h q" for h q c
    using frame[where h=h and p=q and ts="lastTimestamp q" and c=c and b="inPokerWorld q" and b'="InPokerWorld (result q)"] by simp
  have frame_world: "J h (q\<lparr>inPokerWorld := b, result := (result q)\<lparr>InPokerWorld := b'\<rparr>\<rparr>) = J h q"
    for h q b b'
    using frame[where h=h and p=q and ts="lastTimestamp q" and c="currentHand q" and b=b and b'=b'] by simp
  have inv_ts: "reachInv Q J (p\<lparr>lastTimestamp := ts\<rparr>)" for ts
    using inv by (simp add: reachInv_def frame_ts)
  have finI: "reachInv Q J (finalizeCurrentHand q)" if "reachInv Q J q" for q
    using reachInv_finalize[of J Q q] loc fin that by blast
  have startI: "reachInv Q J (startNewHand ts q)" if "reachInv Q J q" for ts q
  proof -
    have "Hands (result (startNewHand ts q)) = Hands (result q)"
      by (simp add: startNewHand_def Let_def)
    then show ?thesis using that start[of ts q] by (simp add: reachInv_def)
  qed
  have evI: "reachInv Q J (processPokerEvent ts m q)" if q: "reachInv Q J q" for ts m q
  proof (cases "m = NewGame")
    case True
    then show ?thesis using startI[OF finI[OF q]] by (simp add: processPokerEvent_def)
  next
    case False
    show ?thesis
    proof (cases "currentHand q")
      case None
      then show ?thesis using q False by (simp add: processPokerEvent_def)
    next
      case (Some h)
      obtain h' q' where he: "handleEvent ts m (h, q) = (h', q')" by (cases "handleEvent ts m (h, q)") auto
      have "J h q" using q Some by (simp add: reachInv_def)
      then have J': "J h' q'" using step[of h q ts m] he by simp
      have "result q' = result q \<or> (\<exists>s. result q' = (result q)\<lparr>ResultLocalSeat := s\<rparr>)"
        using he by (cases m) (auto simp: Let_def assignLocalCards_def split: sum.splits if_splits option.splits)
      then have "Hands (result q') = Hands (result q)" by auto
      then show ?thesis
        using q J' False Some he by (simp add: processPokerEvent_def reachInv_def frame_cur)
    qed
  qed
  have "reachInv Q J (ParseLine l p)"
  proof (cases l)
    case NoTimestamp
    then show ?thesis using inv by simp
  next
    case (Joining ts b)
    have "J h (p\<lparr>lastTimestamp := ts, inPokerWorld := b, result := (result p)\<lparr>InPokerWorld := b\<rparr>\<rparr>) = J h p"
      for h
      using frame[where h=h and p=p and ts=ts and c="currentHand p" and b=b and b'=b] by simp
    then show ?thesis using Joining inv by (simp add: reachInv_def)
  next
    case (OnLeftRoom ts)
    have "reachInv Q J (q\<lparr>inPokerWorld := False, result := (result q)\<lparr>InPokerWorld := False\<rparr>\<rparr>)"
      if "reachInv Q J q" for q
      using that frame_world by (simp add: reachInv_def)
    then show ?thesis using OnLeftRoom inv_ts finI by (simp add: Let_def)
  next
    case (PokerMsg ts m)
    then show ?thesis using evI[OF inv_ts] by simp
  qed
  then show ?case by (simp add: ParseLines_snoc p_def)
qed

text \<open>\<open>sortInts\<close> sorts: its result is the sorted list with the same elements.\<close>

lemma sortInner_insert:
  "\<exists>pre'. sortInner (pre @ x # post) (length pre) = pre' @ post \<and>
          mset pre' = mset pre + {#x#} \<and> (sorted pre \<longrightarrow> sorted pre')"
proof (induction pre arbitrary: post rule: rev_induct)
  case Nil
  show ?case by (auto intro: exI[of _ "[x]"])
next
  case (snoc y ys)
  let ?s = "(ys @ [y]) @ x # post"
  have len: "length (ys @ [y]) = Suc (length ys)" by simp
  have nx: "?s ! Suc (length ys) = x"
    using nth_append_length[of "ys @ [y]" x post] by (simp del: nth_append_length)
  have ny: "?s ! length ys = y" by (simp add: nth_append)
  show ?case
  proof (cases "x < y")
    case True
    have upd: "?s[Suc (length ys) := y, length ys := x] = ys @ x # (y # post)"
    proof -
      have "?s[Suc (length ys) := y] = (ys @ [y]) @ y # post"
        using list_update_length[of "ys @ [y]" x post y] by (simp del: list_update_length)
      then show ?thesis by (simp add: list_update_append)
    qed
    obtain pre'' where IH: "sortInner (ys @ x # (y # post)) (length ys) = pre'' @ (y # post)"
      "mset pre'' = mset ys + {#x#}" "sorted ys \<longrightarrow> sorted pre''"
      using snoc.IH[of "y # post"] by blast
    have step: "sortInner ?s (length (ys @ [y])) = (pre'' @ [y]) @ post"
      unfolding len using True nx ny upd IH(1) by simp
    have srt: "sorted (ys @ [y]) \<longrightarrow> sorted (pre'' @ [y])"
    proof
      assume s: "sorted (ys @ [y])"
      then have "sorted ys" and le: "\<forall>z\<in>set ys. z \<le> y" by (auto simp: sorted_append)
      then have "sorted pre''" using IH(3) by simp
      moreover have "set pre'' = set ys \<union> {x}"
        using IH(2) by (metis mset_eq_setD set_mset_mset set_mset_union set_mset_add_mset_insert set_mset_empty Un_insert_right sup_bot.right_neutral)
      ultimately show "sorted (pre'' @ [y])" using le True by (auto simp: sorted_append)
    qed
    show ?thesis
      using step IH(2) srt by (intro exI[of _ "pre'' @ [y]"]) simp
  next
    case False
    have step: "sortInner ?s (length (ys @ [y])) = (ys @ [y, x]) @ post"
      unfolding len using False nx ny by simp
    have "sorted (ys @ [y]) \<longrightarrow> sorted (ys @ [y, x])"
      using False by (auto simp: sorted_append)
    then show ?thesis
      using step by (intro exI[of _ "ys @ [y, x]"]) simp
  qed
qed

lemma sortInts_loop:
  "k \<le> length s \<Longrightarrow>
   (let s' = fold (\<lambda>i s. sortInner s i) [1..<k] s
    in sorted (take k s') \<and> mset s' = mset s \<and> length s' = length s)"
proof (induction k)
  case 0
  show ?case by simp
next
  case (Suc k)
  show ?case
  proof (cases "k = 0")
    case True
    then show ?thesis by (cases s) (simp_all add: take_Suc)
  next
    case False
    define s1 where "s1 = fold (\<lambda>i s. sortInner s i) [1..<k] s"
    have IH: "sorted (take k s1)" "mset s1 = mset s" "length s1 = length s"
      using Suc by (simp_all add: s1_def Let_def)
    have k: "k < length s1" using Suc.prems IH(3) by simp
    have split: "s1 = take k s1 @ (s1 ! k) # drop (Suc k) s1"
      using k by (simp add: id_take_nth_drop)
    have lk: "length (take k s1) = k" using k by simp
    obtain pre' where p: "sortInner (take k s1 @ (s1 ! k) # drop (Suc k) s1) (length (take k s1)) = pre' @ drop (Suc k) s1"
      "mset pre' = mset (take k s1) + {#s1 ! k#}" "sorted (take k s1) \<longrightarrow> sorted pre'"
      using sortInner_insert[of "take k s1" "s1 ! k" "drop (Suc k) s1"] by blast
    have step: "sortInner s1 k = pre' @ drop (Suc k) s1"
      using p(1) split lk by simp
    have lp: "length pre' = Suc k"
      using p(2) lk by (metis length_append_singleton mset_eq_length mset_append mset.simps(1) mset.simps(2) union_mset_add_mset_right add.right_neutral)
    have ms: "mset (pre' @ drop (Suc k) s1) = mset s1"
    proof -
      have "mset s1 = mset (take k s1) + {#s1 ! k#} + mset (drop (Suc k) s1)"
        by (subst split) simp
      then show ?thesis using p(2) by simp
    qed
    have fold_eq: "fold (\<lambda>i s. sortInner s i) [1..<Suc k] s = pre' @ drop (Suc k) s1"
      using False step by (simp add: s1_def)
    show ?thesis
      unfolding Let_def fold_eq
      using p(3) IH lp ms mset_eq_length[OF ms] by simp
  qed
qed

lemma sortInts_sort: "sortInts s = sort s"
proof -
  define s' where "s' = fold (\<lambda>i s. sortInner s i) [1..<length s] s"
  have a: "sorted (take (length s) s')" "mset s' = mset s" "length s' = length s"
    using sortInts_loop[of "length s" s] unfolding s'_def Let_def by blast+
  have "take (length s) s' = s'" using a(3) by simp
  then have "sorted s'" using a(1) by simp
  then show ?thesis using a(2) by (simp add: properties_for_sort sortInts_def s'_def)
qed

lemma classifyAction_recordedKind: "classifyAction p seat a = recordedKind (streetBetAmount p) a"
  by (simp add: classifyAction_def recordedKind_def Let_def)

text \<open>What \<open>assignLocalCards\<close> returns.\<close>

lemma fst_assignLocalCards [simp]:
  "fst (assignLocalCards s c (h, p)) =
     (updPlayer s (\<lambda>pi. pi\<lparr>HoleCards := c\<rparr>) (ensurePlayer s h))\<lparr>LocalPlayerSeat := s\<rparr>"
  by (simp add: assignLocalCards_def)

lemma snd_assignLocalCards [simp]:
  "snd (assignLocalCards s c (h, p)) =
     p\<lparr>result := (result p)\<lparr>ResultLocalSeat := s\<rparr>, pendingLocalCards := None\<rparr>"
  by (simp add: assignLocalCards_def)

text \<open>The recorded actions of a seat through the operations on a hand.\<close>

lemma actionsOf_updPlayer_same [simp]:
  "(\<And>pi. Actions (f pi) = Actions pi) \<Longrightarrow> actionsOf (updPlayer s f h) s' = actionsOf h s'"
  by (simp add: actionsOf_def split: option.split)

lemma actionsOf_ensurePlayer [simp]: "actionsOf (ensurePlayer s h) s' = actionsOf h s'"
  by (simp add: actionsOf_def newPlayerHandInfo_def split: option.split)

lemma actionsOf_addAction_ensure [simp]:
  "actionsOf (addAction s a (ensurePlayer s h)) s' =
     (if s' = s then actionsOf h s @ [a] else actionsOf h s')"
  by (simp add: actionsOf_def newPlayerHandInfo_def split: option.split)

lemma actionsOf_fields [simp]:
  "actionsOf (h\<lparr>SBSeat := x1\<rparr>) s = actionsOf h s"
  "actionsOf (h\<lparr>BBSeat := x1\<rparr>) s = actionsOf h s"
  "actionsOf (h\<lparr>CommunityCards := x2\<rparr>) s = actionsOf h s"
  "actionsOf (h\<lparr>WinType := x3\<rparr>) s = actionsOf h s"
  "actionsOf (h\<lparr>LocalPlayerSeat := x1\<rparr>) s = actionsOf h s"
  "actionsOf (h\<lparr>WinnerSeat := x1\<rparr>) s = actionsOf h s"
  "actionsOf (h\<lparr>TotalPot := x4\<rparr>) s = actionsOf h s"
  "actionsOf (h\<lparr>NumPlayers := x1\<rparr>) s = actionsOf h s"
  "actionsOf (h\<lparr>EndTime := x1\<rparr>) s = actionsOf h s"
  "actionsOf (h\<lparr>IsComplete := x5\<rparr>) s = actionsOf h s"
  by (simp_all add: actionsOf_def)

lemma actionsOf_proj:
  "actionsOf h s = (case map_option Actions (Players h s) of None \<Rightarrow> [] | Some x \<Rightarrow> x)"
  by (simp add: actionsOf_def split: option.split)

lemma recordedKind_not_AllIn [simp]: "recordedKind b a \<noteq> ActionAllIn"
  by (simp add: recordedKind_def)

text \<open>\<open>assignPositions\<close> and \<open>calculatePreflopStats\<close> write to the players only.\<close>

lemma assignPositions_fields [simp]:
  "WinType (assignPositions h) = WinType h"
  "CommunityCards (assignPositions h) = CommunityCards h"
  "TotalPot (assignPositions h) = TotalPot h"
  "WinnerSeat (assignPositions h) = WinnerSeat h"
  "LocalPlayerSeat (assignPositions h) = LocalPlayerSeat h"
  "ActiveSeats (assignPositions h) = ActiveSeats h"
  "SBSeat (assignPositions h) = SBSeat h"
  "BBSeat (assignPositions h) = BBSeat h"
proof -
  obtain P where P: "assignPositions h = h\<lparr>Players := P\<rparr>" using assignPositions_only by blast
  show "WinType (assignPositions h) = WinType h"
    "CommunityCards (assignPositions h) = CommunityCards h"
    "TotalPot (assignPositions h) = TotalPot h"
    "WinnerSeat (assignPositions h) = WinnerSeat h"
    "LocalPlayerSeat (assignPositions h) = LocalPlayerSeat h"
    "ActiveSeats (assignPositions h) = ActiveSeats h"
    "SBSeat (assignPositions h) = SBSeat h"
    "BBSeat (assignPositions h) = BBSeat h"
    by (simp_all add: P)
qed

lemma calculatePreflopStats_fields [simp]:
  "WinType (calculatePreflopStats pfs h) = WinType h"
  "CommunityCards (calculatePreflopStats pfs h) = CommunityCards h"
  "TotalPot (calculatePreflopStats pfs h) = TotalPot h"
  "WinnerSeat (calculatePreflopStats pfs h) = WinnerSeat h"
  "LocalPlayerSeat (calculatePreflopStats pfs h) = LocalPlayerSeat h"
  "ActiveSeats (calculatePreflopStats pfs h) = ActiveSeats h"
  "SBSeat (calculatePreflopStats pfs h) = SBSeat h"
  "BBSeat (calculatePreflopStats pfs h) = BBSeat h"
proof -
  obtain P where P: "calculatePreflopStats pfs h = h\<lparr>Players := P\<rparr>"
    using calculatePreflopStats_only by blast
  show "WinType (calculatePreflopStats pfs h) = WinType h"
    "CommunityCards (calculatePreflopStats pfs h) = CommunityCards h"
    "TotalPot (calculatePreflopStats pfs h) = TotalPot h"
    "WinnerSeat (calculatePreflopStats pfs h) = WinnerSeat h"
    "LocalPlayerSeat (calculatePreflopStats pfs h) = LocalPlayerSeat h"
    "ActiveSeats (calculatePreflopStats pfs h) = ActiveSeats h"
    "SBSeat (calculatePreflopStats pfs h) = SBSeat h"
    "BBSeat (calculatePreflopStats pfs h) = BBSeat h"
    by (simp_all add: P)
qed

lemma finalizeHand_proj:
  assumes "\<And>pi x. g (pi\<lparr>Position := x\<rparr>) = g pi"
    "\<And>pi. g (pi\<lparr>VPIP := True\<rparr>) = g pi" "\<And>pi. g (pi\<lparr>PFR := True\<rparr>) = g pi"
    "\<And>pi. g (pi\<lparr>ThreeBet := True\<rparr>) = g pi" "\<And>pi. g (pi\<lparr>FoldTo3Bet := True\<rparr>) = g pi"
  shows "map_option g (Players (finalizeHand h p) s) =
         map_option g (Players (fst (afterWinners h p)) s)"
  unfolding finalizeHand_def Let_def afterWinners_def
  by (simp add: calculatePreflopStats_proj[of g, OF assms(2-5)] assignPositions_proj[of g, OF assms(1)])

lemma finalizeHand_fields:
  "CommunityCards (finalizeHand h p) = CommunityCards (fst (afterWinners h p))"
  "WinnerSeat (finalizeHand h p) = WinnerSeat (fst (afterWinners h p))"
  "LocalPlayerSeat (finalizeHand h p) = LocalPlayerSeat (fst (afterWinners h p))"
  "ActiveSeats (finalizeHand h p) = ActiveSeats (fst (afterWinners h p))"
  "TotalPot (finalizeHand h p) = snd (afterWinners h p)"
  "WinType (finalizeHand h p) =
     (if WinType (fst (afterWinners h p)) = []
      then (if 3 \<le> length (CommunityCards (fst (afterWinners h p))) then ''showdown'' else ''fold'')
      else WinType (fst (afterWinners h p)))"
  unfolding finalizeHand_def Let_def afterWinners_def by simp_all

text \<open>No all-in is ever recorded: the invariant.\<close>

lemma noAllIn_list_all: "noAllIn h \<longleftrightarrow> (\<forall>s. list_all (\<lambda>a. Action a \<noteq> ActionAllIn) (actionsOf h s))"
  by (simp add: noAllIn_def list_all_iff)

lemma noAllInPending_list_all:
  "noAllInPending h p \<longleftrightarrow>
     (\<forall>s. list_all (\<lambda>a. Action a \<noteq> ActionAllIn) (actionsOf h s)) \<and>
     list_all (\<lambda>a. action a \<noteq> ActionAllIn) (pfActions p)"
  by (simp add: noAllInPending_def noAllIn_list_all list_all_iff)

lemma noAllIn_handleEvent:
  assumes "noAllInPending h p"
  shows "noAllInPending (fst (handleEvent ts m (h, p))) (snd (handleEvent ts m (h, p)))"
  using assms
  by (cases m)
     (simp_all add: noAllInPending_list_all Let_def classifyAction_recordedKind
        split: sum.split option.split)

lemma actionsOf_applyWinner [simp]: "actionsOf (fst (applyWinner pw (h, t))) s = actionsOf h s"
  by (simp add: applyWinner_def Let_def)

lemma actionsOf_fold_applyWinner [simp]:
  "actionsOf (fst (fold applyWinner pws (h, t))) s = actionsOf h s"
proof (induction pws arbitrary: h t)
  case Nil
  show ?case by simp
next
  case (Cons pw pws)
  show ?case
    using Cons.IH[of "fst (applyWinner pw (h, t))" "snd (applyWinner pw (h, t))"]
    by simp
qed

lemma actionsOf_finalizeHand [simp]: "actionsOf (finalizeHand h p) s = actionsOf h s"
proof -
  have "map_option Actions (Players (finalizeHand h p) s) =
        map_option Actions (Players (fst (afterWinners h p)) s)"
    by (rule finalizeHand_proj) simp_all
  then have "actionsOf (finalizeHand h p) s = actionsOf (fst (afterWinners h p)) s"
    by (simp only: actionsOf_proj)
  then show ?thesis by (simp add: afterWinners_def)
qed

lemma noAllIn_reach: "reachInv noAllIn noAllInPending (ParseLines ls NewParser)"
proof (rule reachInv_rule)
  fix ts p h
  assume "currentHand (startNewHand ts p) = Some h"
  then show "noAllInPending h (startNewHand ts p)"
    by (auto simp: startNewHand_def Let_def noAllInPending_def noAllIn_def actionsOf_def)
next
  fix ts m h p
  assume "noAllInPending h p"
  then show "noAllInPending (fst (handleEvent ts m (h, p))) (snd (handleEvent ts m (h, p)))"
    by (rule noAllIn_handleEvent)
next
  fix s c h p
  assume "noAllInPending h p"
  then show "noAllInPending (fst (assignLocalCards s c (h, p))) (snd (assignLocalCards s c (h, p)))"
    by (simp add: noAllInPending_list_all)
next
  fix h p
  assume "noAllInPending h p"
  then show "noAllIn (finalizeHand h p)"
    by (simp add: noAllInPending_list_all noAllIn_list_all)
next
  fix h p ts c b b'
  show "noAllInPending h (p\<lparr>lastTimestamp := ts, currentHand := c, inPokerWorld := b,
          result := (result p)\<lparr>InPokerWorld := b'\<rparr>\<rparr>) = noAllInPending h p"
    by (simp add: noAllInPending_def)
qed

lemma scannedLines_whole [simp]: "scannedLines (map Some ls) = ls"
  by (induction ls) simp_all

lemma reachInv_ParseReader:
  assumes "reachInv Q J (ParseLines (scannedLines r) NewParser)"
    and loc: "\<And>s c h p. J h p \<Longrightarrow>
        J (fst (assignLocalCards s c (h, p))) (snd (assignLocalCards s c (h, p)))"
    and fin: "\<And>h p. J h p \<Longrightarrow> Q (finalizeHand h p)"
  shows "\<forall>h\<in>set (Hands (fst (ParseReader r))). Q h"
  using reachInv_finalize[of J Q "ParseLines (scannedLines r) NewParser", OF loc fin assms(1)]
  by (simp add: reachInv_def ParseReader_def)

text \<open>Pots and winners through finalization.\<close>

lemma potWon_simps [simp]:
  "potWon (ensurePlayer s h) s' = potWon h s'"
  "potWon (addAction s a h) s' = potWon h s'"
  "(\<And>pi. PotWon (f pi) = PotWon pi) \<Longrightarrow> potWon (updPlayer s f h) s' = potWon h s'"
  by (simp_all add: potWon_def newPlayerHandInfo_def option.map_comp comp_def split: option.split)

lemma wonIn_simps [simp]:
  "wonIn (ensurePlayer s h) s' = wonIn h s'"
  "wonIn (addAction s a h) s' = wonIn h s'"
  "(\<And>pi. Won (f pi) = Won pi) \<Longrightarrow> wonIn (updPlayer s f h) s' = wonIn h s'"
  by (simp_all add: wonIn_def newPlayerHandInfo_def option.map_comp comp_def split: option.split)

lemma potWon_fields [simp]:
  "potWon (h\<lparr>SBSeat := x1\<rparr>) s = potWon h s"
  "potWon (h\<lparr>BBSeat := x1\<rparr>) s = potWon h s"
  "potWon (h\<lparr>CommunityCards := x2\<rparr>) s = potWon h s"
  "potWon (h\<lparr>WinType := x3\<rparr>) s = potWon h s"
  "potWon (h\<lparr>LocalPlayerSeat := x1\<rparr>) s = potWon h s"
  "potWon (h\<lparr>WinnerSeat := x1\<rparr>) s = potWon h s"
  "potWon (h\<lparr>TotalPot := x4\<rparr>) s = potWon h s"
  by (simp_all add: potWon_def)

lemma wonIn_fields [simp]:
  "wonIn (h\<lparr>SBSeat := x1\<rparr>) s = wonIn h s"
  "wonIn (h\<lparr>BBSeat := x1\<rparr>) s = wonIn h s"
  "wonIn (h\<lparr>CommunityCards := x2\<rparr>) s = wonIn h s"
  "wonIn (h\<lparr>WinType := x3\<rparr>) s = wonIn h s"
  "wonIn (h\<lparr>LocalPlayerSeat := x1\<rparr>) s = wonIn h s"
  "wonIn (h\<lparr>WinnerSeat := x1\<rparr>) s = wonIn h s"
  "wonIn (h\<lparr>TotalPot := x4\<rparr>) s = wonIn h s"
  by (simp_all add: wonIn_def)

lemma potWon_proj: "potWon h s = (case map_option PotWon (Players h s) of None \<Rightarrow> 0 | Some x \<Rightarrow> x)"
  by (simp add: potWon_def split: option.split)

lemma wonIn_proj: "wonIn h s = (case map_option Won (Players h s) of None \<Rightarrow> False | Some x \<Rightarrow> x)"
  by (simp add: wonIn_def split: option.split)

lemma applyWinner_simps [simp]:
  "potWon (fst (applyWinner pw (h, t))) s =
     (if s = winSeat pw then potWon h s + winAmount pw else potWon h s)"
  "wonIn (fst (applyWinner pw (h, t))) s = (s = winSeat pw \<or> wonIn h s)"
  "WinnerSeat (fst (applyWinner pw (h, t))) = winSeat pw"
  "WinType (fst (applyWinner pw (h, t))) = WinType h"
  "CommunityCards (fst (applyWinner pw (h, t))) = CommunityCards h"
  "LocalPlayerSeat (fst (applyWinner pw (h, t))) = LocalPlayerSeat h"
  "snd (applyWinner pw (h, t)) = t + winAmount pw"
  by (simp_all add: applyWinner_def Let_def potWon_def wonIn_def newPlayerHandInfo_def
        split: option.split)

lemma fold_applyWinner:
  "potWon (fst (fold applyWinner pws (h, t))) s = potWon h s + potWonBy pws s \<and>
   wonIn (fst (fold applyWinner pws (h, t))) s = (wonIn h s \<or> s \<in> winSeat ` set pws) \<and>
   WinnerSeat (fst (fold applyWinner pws (h, t))) =
     (if pws = [] then WinnerSeat h else winSeat (last pws)) \<and>
   WinType (fst (fold applyWinner pws (h, t))) = WinType h \<and>
   CommunityCards (fst (fold applyWinner pws (h, t))) = CommunityCards h \<and>
   LocalPlayerSeat (fst (fold applyWinner pws (h, t))) = LocalPlayerSeat h \<and>
   snd (fold applyWinner pws (h, t)) = t + sum_list (map winAmount pws)"
proof (induction pws arbitrary: h t)
  case Nil
  show ?case by (simp add: potWonBy_def)
next
  case (Cons pw pws)
  obtain h1 t1 where st: "applyWinner pw (h, t) = (h1, t1)" by (cases "applyWinner pw (h, t)") auto
  have h1: "potWon h1 s = (if s = winSeat pw then potWon h s + winAmount pw else potWon h s)"
    "wonIn h1 s = (s = winSeat pw \<or> wonIn h s)" "WinnerSeat h1 = winSeat pw"
    "WinType h1 = WinType h" "CommunityCards h1 = CommunityCards h"
    "LocalPlayerSeat h1 = LocalPlayerSeat h" "t1 = t + winAmount pw"
    using applyWinner_simps[of pw h t] st by simp_all
  show ?case
    using Cons.IH[of h1 t1] by (auto simp: st h1 potWonBy_def add.assoc)
qed

lemma sum_list_by_seat:
  fixes f :: "'a \<Rightarrow> chips"
  assumes "finite S" and "g ` set xs \<subseteq> S"
  shows "sum_list (map f xs) = (\<Sum>k\<in>S. sum_list (map f (filter (\<lambda>x. g x = k) xs)))"
  using assms(2)
proof (induction xs)
  case Nil
  show ?case by simp
next
  case (Cons x xs)
  have gx: "g x \<in> S" and sub: "g ` set xs \<subseteq> S" using Cons.prems by auto
  have "(\<Sum>k\<in>S. sum_list (map f (filter (\<lambda>x. g x = k) (x # xs)))) =
        (\<Sum>k\<in>S. (if g x = k then f x else 0) + sum_list (map f (filter (\<lambda>x. g x = k) xs)))"
    by (rule sum.cong) auto
  also have "\<dots> = (\<Sum>k\<in>S. if g x = k then f x else 0) +
                  (\<Sum>k\<in>S. sum_list (map f (filter (\<lambda>x. g x = k) xs)))"
    by (simp add: sum.distrib)
  also have "(\<Sum>k\<in>S. if g x = k then f x else 0) = f x"
    using assms(1) gx by (simp add: sum.delta)
  finally show ?case using Cons.IH[OF sub] by simp
qed

lemma total_by_seat:
  "sum_list (map winAmount pws) = (\<Sum>s\<in>winSeat ` set pws. potWonBy pws s)"
  unfolding potWonBy_def by (rule sum_list_by_seat) simp_all


lemma finalizeHand_pots:
  "potWon (finalizeHand h p) s = potWon h s + potWonBy (pendingWinners p) s"
  "wonIn (finalizeHand h p) s = (wonIn h s \<or> s \<in> winSeat ` set (pendingWinners p))"
  "WinnerSeat (finalizeHand h p) =
     (if pendingWinners p = [] then WinnerSeat h else winSeat (last (pendingWinners p)))"
  "TotalPot (finalizeHand h p) = sum_list (map winAmount (pendingWinners p))"
proof -
  note fa = fold_applyWinner[of "pendingWinners p" h 0 s, folded afterWinners_def]
  have "map_option PotWon (Players (finalizeHand h p) s) =
        map_option PotWon (Players (fst (afterWinners h p)) s)"
    by (rule finalizeHand_proj) simp_all
  then have "potWon (finalizeHand h p) s = potWon (fst (afterWinners h p)) s"
    by (simp only: potWon_proj)
  then show "potWon (finalizeHand h p) s = potWon h s + potWonBy (pendingWinners p) s"
    using fa by simp
  have "map_option Won (Players (finalizeHand h p) s) =
        map_option Won (Players (fst (afterWinners h p)) s)"
    by (rule finalizeHand_proj) simp_all
  then have "wonIn (finalizeHand h p) s = wonIn (fst (afterWinners h p)) s"
    by (simp only: wonIn_proj)
  then show "wonIn (finalizeHand h p) s = (wonIn h s \<or> s \<in> winSeat ` set (pendingWinners p))"
    using fa by simp
  show "WinnerSeat (finalizeHand h p) =
     (if pendingWinners p = [] then WinnerSeat h else winSeat (last (pendingWinners p)))"
    using fa by (simp add: finalizeHand_fields)
  show "TotalPot (finalizeHand h p) = sum_list (map winAmount (pendingWinners p))"
    using fa by (simp add: finalizeHand_fields)
qed

lemma noWinnerYet_handleEvent:
  assumes "noWinnerYet h p"
  shows "noWinnerYet (fst (handleEvent ts m (h, p))) (snd (handleEvent ts m (h, p)))"
  using assms
  by (cases m) (simp_all add: noWinnerYet_def Let_def split: sum.split option.split)

lemma noWinnerYet_finalize:
  assumes "noWinnerYet h p"
  shows "potConsistent (finalizeHand h p)"
proof -
  have w: "{s. wonIn (finalizeHand h p) s} = winSeat ` set (pendingWinners p)"
    using assms by (auto simp: finalizeHand_pots noWinnerYet_def)
  have "potWon (finalizeHand h p) s = potWonBy (pendingWinners p) s" for s
    using assms by (simp add: finalizeHand_pots noWinnerYet_def)
  then show ?thesis
    unfolding potConsistent_def w by (simp add: finalizeHand_pots total_by_seat)
qed

lemma noWinnerYet_local:
  assumes "noWinnerYet h p"
  shows "noWinnerYet (fst (assignLocalCards s c (h, p))) (snd (assignLocalCards s c (h, p)))"
  using assms by (simp add: noWinnerYet_def)

lemma noWinnerYet_reach: "reachInv potConsistent noWinnerYet (ParseLines ls NewParser)"
proof (rule reachInv_rule)
  fix ts p h
  assume "currentHand (startNewHand ts p) = Some h"
  then show "noWinnerYet h (startNewHand ts p)"
    by (auto simp: startNewHand_def Let_def noWinnerYet_def potWon_def wonIn_def)
next
  fix h p ts c b b'
  show "noWinnerYet h (p\<lparr>lastTimestamp := ts, currentHand := c, inPokerWorld := b,
          result := (result p)\<lparr>InPokerWorld := b'\<rparr>\<rparr>) = noWinnerYet h p"
    by (simp add: noWinnerYet_def)
next
  fix ts m h p
  assume "noWinnerYet h p"
  then show "noWinnerYet (fst (handleEvent ts m (h, p))) (snd (handleEvent ts m (h, p)))"
    by (rule noWinnerYet_handleEvent)
next
  fix s c h p
  assume "noWinnerYet h p"
  then show "noWinnerYet (fst (assignLocalCards s c (h, p))) (snd (assignLocalCards s c (h, p)))"
    by (rule noWinnerYet_local)
next
  fix h p
  assume "noWinnerYet h p"
  then show "potConsistent (finalizeHand h p)"
    by (rule noWinnerYet_finalize)
qed

lemma finalizeLocalCards_cases:
  "finalizeLocalCards h p = (h, p) \<or>
   (\<exists>s c. finalizeLocalCards h p = assignLocalCards s c (h, p))"
  by (auto simp: finalizeLocalCards_def split: option.split)

lemma pendingWinners_finalizeLocalCards [simp]:
  "pendingWinners (snd (finalizeLocalCards h p)) = pendingWinners p"
  using finalizeLocalCards_cases[of h p] by auto

text \<open>The win type and the pending winners.\<close>

lemma winType_handleEvent:
  assumes "winTypeFromWinner h p"
  shows "winTypeFromWinner (fst (handleEvent ts m (h, p))) (snd (handleEvent ts m (h, p)))"
  using assms
  by (cases m) (simp_all add: winTypeFromWinner_def Let_def split: sum.split option.split)

lemma winType_local:
  assumes "winTypeFromWinner h p"
  shows "winTypeFromWinner (fst (assignLocalCards s c (h, p))) (snd (assignLocalCards s c (h, p)))"
  using assms by (simp add: winTypeFromWinner_def)

lemma winType_finalize:
  assumes "winTypeFromWinner h p"
  shows "showdownJustified (finalizeHand h p)"
proof (cases "WinType h = []")
  case True
  have "WinType (fst (afterWinners h p)) = []"
    using fold_applyWinner[of "pendingWinners p" h 0 0] True by (simp add: afterWinners_def)
  moreover have "CommunityCards (fst (afterWinners h p)) = CommunityCards h"
    using fold_applyWinner[of "pendingWinners p" h 0 0] by (simp add: afterWinners_def)
  ultimately show ?thesis
    by (simp add: showdownJustified_def finalizeHand_fields)
next
  case False
  then have "pendingWinners p \<noteq> []" using assms by (simp add: winTypeFromWinner_def)
  then have "wonIn (finalizeHand h p) (winSeat (last (pendingWinners p)))"
    by (simp add: finalizeHand_pots)
  then show ?thesis unfolding showdownJustified_def by blast
qed

lemma winType_reach: "reachInv showdownJustified winTypeFromWinner (ParseLines ls NewParser)"
proof (rule reachInv_rule)
  fix ts p h
  assume "currentHand (startNewHand ts p) = Some h"
  then show "winTypeFromWinner h (startNewHand ts p)"
    by (auto simp: startNewHand_def Let_def winTypeFromWinner_def)
next
  fix h p ts c b b'
  show "winTypeFromWinner h (p\<lparr>lastTimestamp := ts, currentHand := c, inPokerWorld := b,
          result := (result p)\<lparr>InPokerWorld := b'\<rparr>\<rparr>) = winTypeFromWinner h p"
    by (simp add: winTypeFromWinner_def)
next
  fix ts m h p
  assume "winTypeFromWinner h p"
  then show "winTypeFromWinner (fst (handleEvent ts m (h, p))) (snd (handleEvent ts m (h, p)))"
    by (rule winType_handleEvent)
next
  fix s c h p
  assume "winTypeFromWinner h p"
  then show "winTypeFromWinner (fst (assignLocalCards s c (h, p))) (snd (assignLocalCards s c (h, p)))"
    by (rule winType_local)
next
  fix h p
  assume "winTypeFromWinner h p"
  then show "showdownJustified (finalizeHand h p)"
    by (rule winType_finalize)
qed

text \<open>Blind inference: the loops, and the seats the parser tracks.\<close>

lemma firstSeatLoop_find:
  "fs < 0 \<Longrightarrow> \<forall>a\<in>set pfs. 0 \<le> seatID a \<Longrightarrow>
   firstSeatLoop fs pfs = (case find isVoluntary pfs of None \<Rightarrow> fs | Some a \<Rightarrow> seatID a)"
  by (induction pfs arbitrary: fs) (auto simp: isVoluntary_def Let_def)

lemma indexOf_Some: "indexOf x xs = Some i \<Longrightarrow> i < length xs \<and> xs ! i = x"
  by (induction xs arbitrary: i) (auto split: if_splits)

lemma indexOf_mem: "x \<in> set xs \<Longrightarrow> \<exists>i. indexOf x xs = Some i"
  by (induction xs) auto

lemma set_ActiveSeats_ensurePlayer [simp]:
  "set (ActiveSeats (ensurePlayer s h)) =
     (if Players h s = None then insert s (set (ActiveSeats h)) else set (ActiveSeats h))"
  by (auto simp: ActiveSeats_ensurePlayer)

lemma seatsTracked_handleEvent:
  assumes "seatsTracked h p"
  shows "seatsTracked (fst (handleEvent ts m (h, p))) (snd (handleEvent ts m (h, p)))"
  using assms
  by (cases m)
     (auto simp: seatsTracked_def seatsKnown_def Let_def Atoi_def split: sum.split option.split)

lemma seatsTracked_local:
  assumes "seatsTracked h p"
  shows "seatsTracked (fst (assignLocalCards s c (h, p))) (snd (assignLocalCards s c (h, p)))"
  using assms by (auto simp: seatsTracked_def seatsKnown_def)

lemma seatsTracked_reach: "reachInv (\<lambda>h. True) seatsTracked (ParseLines ls NewParser)"
proof (rule reachInv_rule)
  fix ts p h
  assume "currentHand (startNewHand ts p) = Some h"
  then show "seatsTracked h (startNewHand ts p)"
    by (auto simp: startNewHand_def Let_def seatsTracked_def seatsKnown_def)
next
  fix h p ts c b b'
  show "seatsTracked h (p\<lparr>lastTimestamp := ts, currentHand := c, inPokerWorld := b,
          result := (result p)\<lparr>InPokerWorld := b'\<rparr>\<rparr>) = seatsTracked h p"
    by (simp add: seatsTracked_def)
next
  fix ts m h p
  assume "seatsTracked h p"
  then show "seatsTracked (fst (handleEvent ts m (h, p))) (snd (handleEvent ts m (h, p)))"
    by (rule seatsTracked_handleEvent)
next
  fix s c h p
  assume "seatsTracked h p"
  then show "seatsTracked (fst (assignLocalCards s c (h, p))) (snd (assignLocalCards s c (h, p)))"
    by (rule seatsTracked_local)
next
  fix h p
  show "True" by simp
qed

lemma seatsKnown_reachable:
  "currentHand (ParseLines ls NewParser) = Some h \<Longrightarrow>
   seatsKnown h (pfActions (ParseLines ls NewParser))"
  using seatsTracked_reach[of ls] by (simp add: reachInv_def seatsTracked_def)

lemma seatsTracked_applyWinner:
  assumes "seatsTracked h p"
  shows "seatsTracked (fst (applyWinner pw (h, t))) p"
  using assms by (auto simp: seatsTracked_def seatsKnown_def applyWinner_def Let_def)

lemma seatsTracked_fold_applyWinner:
  assumes "seatsTracked h p"
  shows "seatsTracked (fst (fold applyWinner pws (h, t))) p"
  using assms
proof (induction pws arbitrary: h t)
  case Nil
  then show ?case by simp
next
  case (Cons pw pws)
  obtain h1 t1 where st: "applyWinner pw (h, t) = (h1, t1)" by (cases "applyWinner pw (h, t)") auto
  have "seatsTracked h1 p" using seatsTracked_applyWinner[OF Cons.prems, of pw t] st by simp
  then show ?case using Cons.IH[of h1 t1] by (simp add: st)
qed

lemma pfActions_finalizeLocalCards [simp]:
  "pfActions (snd (finalizeLocalCards h p)) = pfActions p"
  using finalizeLocalCards_cases[of h p] by auto

lemma seatsKnown_at_finalization:
  assumes "currentHand (ParseLines ls NewParser) = Some h0"
  shows "seatsKnown (fst (afterWinners (fst (finalizeLocalCards h0 (ParseLines ls NewParser)))
                                       (snd (finalizeLocalCards h0 (ParseLines ls NewParser)))))
                    (pfActions (ParseLines ls NewParser))"
proof -
  define p where "p = ParseLines ls NewParser"
  define hp where "hp = finalizeLocalCards h0 p"
  have J0: "seatsTracked h0 p"
    using seatsTracked_reach[of ls] assms by (simp add: reachInv_def p_def)
  have J1: "seatsTracked (fst hp) (snd hp)"
    using finalizeLocalCards_cases[of h0 p] J0 seatsTracked_local[OF J0]
    unfolding hp_def by auto
  have "seatsTracked (fst (afterWinners (fst hp) (snd hp))) (snd hp)"
    unfolding afterWinners_def by (rule seatsTracked_fold_applyWinner[OF J1])
  then show ?thesis
    unfolding p_def[symmetric] hp_def[symmetric] by (simp add: seatsTracked_def hp_def)
qed

text \<open>\<open>assignPositions\<close> never reaches the panic of \<open>positionOrder\<close>.\<close>

lemma positionOrder_None: "positionOrder n = None \<longleftrightarrow> n = 0"
  by (simp add: positionOrder_def Let_def)

lemma assignPositions_no_panic:
  assumes "indexOf x xs = Some i"
  shows "positionOrder (length (drop i xs @ take i xs)) \<noteq> None"
  using indexOf_Some[OF assms] by (auto simp: positionOrder_None)

text \<open>Which seats have an entry after finalization, and which hand \<open>finalizeCurrentHand\<close>
  appends to the result.\<close>

lemma hasEntry_applyWinner:
  "(Players (fst (applyWinner pw (h, t))) s = None) = (Players h s = None \<and> s \<noteq> winSeat pw)"
  by (simp add: applyWinner_def Let_def)

lemma hasEntry_fold_applyWinner:
  "(Players (fst (fold applyWinner pws (h, t))) s = None) =
   (Players h s = None \<and> s \<notin> winSeat ` set pws)"
proof (induction pws arbitrary: h t)
  case Nil
  show ?case by simp
next
  case (Cons pw pws)
  obtain h1 t1 where st: "applyWinner pw (h, t) = (h1, t1)" by (cases "applyWinner pw (h, t)") auto
  have h1: "(Players h1 s = None) = (Players h s = None \<and> s \<noteq> winSeat pw)"
    using hasEntry_applyWinner[of pw h t s] st by simp
  show ?case using Cons.IH[of h1 t1] by (auto simp: st h1)
qed

lemma hasEntry_finalizeHand:
  "(Players (finalizeHand h p) s = None) =
   (Players h s = None \<and> s \<notin> winSeat ` set (pendingWinners p))"
proof -
  have "map_option (\<lambda>pi. ()) (Players (finalizeHand h p) s) =
        map_option (\<lambda>pi. ()) (Players (fst (afterWinners h p)) s)"
    by (rule finalizeHand_proj) simp_all
  then have "(Players (finalizeHand h p) s = None) = (Players (fst (afterWinners h p)) s = None)"
    by (metis option.map_disc_iff)
  then show ?thesis by (simp add: afterWinners_def hasEntry_fold_applyWinner)
qed

lemma LocalPlayerSeat_finalizeHand:
  "LocalPlayerSeat (finalizeHand h p) = LocalPlayerSeat h"
  by (simp add: finalizeHand_fields afterWinners_def fold_applyWinner)

lemma finalizeCurrentHand_Hands:
  assumes cur: "currentHand p = Some h0"
  shows "Hands (result (finalizeCurrentHand p)) =
         Hands (result p) @
           (if handStored h0 p
            then [finalizeHand (fst (finalizeLocalCards h0 p)) (snd (finalizeLocalCards h0 p))]
            else [])"
proof (cases "pendingLocalCards p \<noteq> None \<and> 0 \<le> ResultLocalSeat (result p)")
  case True
  then obtain c where c: "pendingLocalCards p = Some c" by auto
  have fl: "finalizeLocalCards h0 p = assignLocalCards (ResultLocalSeat (result p)) c (h0, p)"
    using True c by (simp add: finalizeLocalCards_def)
  have st: "handStored h0 p" using True by (simp add: handStored_def)
  show ?thesis
    using cur True st
    by (simp add: finalizeCurrentHand_def Let_def fl hasEntry_finalizeHand
          LocalPlayerSeat_finalizeHand split: option.split)
next
  case False
  then have fl: "finalizeLocalCards h0 p = (h0, p)"
    by (auto simp: finalizeLocalCards_def split: option.split)
  have e: "(Players (finalizeHand h0 p) (LocalPlayerSeat h0) = None) =
           (Players h0 (LocalPlayerSeat h0) = None \<and>
            LocalPlayerSeat h0 \<notin> winSeat ` set (pendingWinners p))"
    by (rule hasEntry_finalizeHand)
  show ?thesis
  proof (cases "Players (finalizeHand h0 p) (LocalPlayerSeat h0)")
    case None
    then show ?thesis
      using cur False e
      by (auto simp: finalizeCurrentHand_def Let_def fl handStored_def LocalPlayerSeat_finalizeHand)
  next
    case (Some pi)
    then show ?thesis
      using cur False e
      by (auto simp: finalizeCurrentHand_def Let_def fl handStored_def LocalPlayerSeat_finalizeHand)
  qed
qed

text \<open>The pre-flop pass: a call, a check, and flags that stay set.\<close>

lemma pfStep_call:
  assumes "Players h (seatID act) = Some pi" "action act = ActionCall"
  shows "snd (pfStep act (h, L, r)) = (L, r)"
    "s \<noteq> seatID act \<Longrightarrow> Players (fst (pfStep act (h, L, r))) s = Players h s"
    "vpipOf (fst (pfStep act (h, L, r))) (seatID act) =
       (vpipOf h (seatID act) \<or> \<not> callExcluded h (seatID act) (amount act) L)"
  using assms by (auto simp: pfStep_def Let_def callExcluded_def vpipOf_def)

lemma pfStep_check: "action act = ActionCheck \<Longrightarrow> pfStep act (h, L, r) = (h, L, r)"
  by (simp add: pfStep_def Let_def split: option.split)

lemma vpipOf_pfStep_mono:
  assumes "vpipOf h s"
  shows "vpipOf (fst (pfStep act (h, L, r))) s"
proof (cases "Players h (seatID act)")
  case None
  then show ?thesis using assms by (simp add: pfStep_def)
next
  case (Some pi0)
  show ?thesis
    using assms
    by (cases "action act")
       (auto simp: pfStep_def Let_def Some vpipOf_def split: option.split)
qed

lemma vpipOf_fold_pfStep_mono:
  assumes "vpipOf h s"
  shows "vpipOf (fst (fold pfStep pfs (h, L, r))) s"
  using assms
proof (induction pfs arbitrary: h L r)
  case Nil
  then show ?case by simp
next
  case (Cons act pfs)
  obtain h1 L1 r1 where st: "pfStep act (h, L, r) = (h1, L1, r1)" by (cases "pfStep act (h, L, r)") auto
  have "vpipOf h1 s" using vpipOf_pfStep_mono[OF Cons.prems, of act L r] st by simp
  then show ?case using Cons.IH[of h1 L1 r1] by (simp add: st)
qed

lemma bbAmount_proj:
  "bbAmount h =
     (if 0 \<le> BBSeat h
      then (case map_option Actions (Players h (BBSeat h)) of
              None \<Rightarrow> 0
            | Some as \<Rightarrow> (case find (\<lambda>a. Action a = ActionBlindBB) as of
                            None \<Rightarrow> 0 | Some a \<Rightarrow> Amount a))
      else 0)"
  by (simp add: bbAmount_def split: option.split)

lemma callExcluded_fold_pfStep:
  "callExcluded (fst (fold pfStep pfs (h, L, r))) s a L' = callExcluded h s a L'"
proof -
  obtain P where P: "fst (fold pfStep pfs (h, L, r)) = h\<lparr>Players := P\<rparr>"
    using fold_pfStep_only by blast
  have acts: "map_option Actions (Players (fst (fold pfStep pfs (h, L, r))) s') =
        map_option Actions (Players h s')" for s'
    by (rule fold_pfStep_proj) simp_all
  have sb: "SBSeat (fst (fold pfStep pfs (h, L, r))) = SBSeat h"
    and bb: "BBSeat (fst (fold pfStep pfs (h, L, r))) = BBSeat h"
    by (simp_all add: P)
  have "bbAmount (fst (fold pfStep pfs (h, L, r))) = bbAmount h"
    by (simp only: bbAmount_proj acts bb)
  then show ?thesis by (simp add: callExcluded_def sb bb)
qed

lemma hasEntry_fold_pfStep:
  "(Players (fst (fold pfStep pfs (h, L, r))) s = None) = (Players h s = None)"
proof -
  have "map_option (\<lambda>pi. ()) (Players (fst (fold pfStep pfs (h, L, r))) s) =
        map_option (\<lambda>pi. ()) (Players h s)"
    by (rule fold_pfStep_proj) simp_all
  then show ?thesis by (metis option.map_disc_iff)
qed

lemma calculatePreflopStats_fold:
  "calculatePreflopStats pfs h = fst (fold pfStep pfs (h, 1, Map.empty))"
  by (simp add: calculatePreflopStats_def Let_def)

text \<open>The blind seats through finalization.\<close>

lemma blinds_finalizeLocalCards:
  "SBSeat (fst (finalizeLocalCards h p)) = SBSeat h"
  "BBSeat (fst (finalizeLocalCards h p)) = BBSeat h"
  using finalizeLocalCards_cases[of h p] by auto

lemma blinds_fold_applyWinner:
  "SBSeat (fst (fold applyWinner pws (h, t))) = SBSeat h \<and>
   BBSeat (fst (fold applyWinner pws (h, t))) = BBSeat h"
proof (induction pws arbitrary: h t)
  case Nil
  show ?case by simp
next
  case (Cons pw pws)
  obtain h1 t1 where st: "applyWinner pw (h, t) = (h1, t1)" by (cases "applyWinner pw (h, t)") auto
  have "SBSeat h1 = SBSeat h \<and> BBSeat h1 = BBSeat h"
    using st by (auto simp: applyWinner_def Let_def)
  then show ?case using Cons.IH[of h1 t1] by (simp add: st)
qed

lemma blinds_finalizeHand:
  "SBSeat (finalizeHand h p) = SBSeat h" "BBSeat (finalizeHand h p) = BBSeat h"
  unfolding finalizeHand_def Let_def by (simp_all add: blinds_fold_applyWinner)

text \<open>
  What \<open>inferBlindsFromPreflop\<close> derives when it is called on a hand whose seats are known
  (\<open>seatsKnown\<close> is what the parser maintains, see \<open>seatsKnown_reachable\<close> and
  \<open>seatsKnown_at_finalization\<close>): with fewer than two active seats nothing; with at least
  two, the rotations in the active seats sorted by seat number.
\<close>

lemma inferBlindsFromPreflop_rotation:
  assumes wf: "seatsKnown h pfs"
  shows "(length (ActiveSeats h) < 2 \<longrightarrow> inferBlindsFromPreflop pfs h = (False, h)) \<and>
         (2 \<le> length (ActiveSeats h) \<longrightarrow>
           (let seats = sort (ActiveSeats h); n = length seats in
            (SBSeat h < 0 \<and> BBSeat h < 0 \<longrightarrow>
               (\<forall>s. firstVoluntary pfs = Some s \<longrightarrow>
                  (\<exists>idx<n. seats ! idx = s \<and>
                     inferBlindsFromPreflop pfs h =
                       (True, h\<lparr>BBSeat := seats ! ((idx + n - 1) mod n),
                                 SBSeat := seats ! ((idx + n - 2) mod n)\<rparr>)))) \<and>
            (0 \<le> SBSeat h \<and> BBSeat h < 0 \<longrightarrow>
               (\<exists>idx<n. seats ! idx = SBSeat h \<and>
                  inferBlindsFromPreflop pfs h = (True, h\<lparr>BBSeat := seats ! ((idx + 1) mod n)\<rparr>))) \<and>
            (0 \<le> BBSeat h \<and> SBSeat h < 0 \<longrightarrow>
               (\<exists>idx<n. seats ! idx = BBSeat h \<and>
                  inferBlindsFromPreflop pfs h =
                    (True, h\<lparr>SBSeat := seats ! ((idx + n - 1) mod n)\<rparr>)))))"
proof (intro conjI impI)
  assume "length (ActiveSeats h) < 2"
  then show "inferBlindsFromPreflop pfs h = (False, h)"
    by (simp add: inferBlindsFromPreflop_def sortInts_sort Let_def)
next
  assume n2: "2 \<le> length (ActiveSeats h)"
  define seats where "seats = sort (ActiveSeats h)"
  define n where "n = length seats"
  have n: "\<not> n < 2" "n = length (ActiveSeats h)" using n2 by (simp_all add: n_def seats_def)
  have setseats: "set seats = set (ActiveSeats h)" by (simp add: seats_def)
  have nonneg: "\<forall>a\<in>set pfs. 0 \<le> seatID a" using wf by (simp add: seatsKnown_def)
  have none: "SBSeat h < 0 \<and> BBSeat h < 0 \<longrightarrow>
         (\<forall>s. firstVoluntary pfs = Some s \<longrightarrow>
            (\<exists>idx<n. seats ! idx = s \<and>
               inferBlindsFromPreflop pfs h =
                 (True, h\<lparr>BBSeat := seats ! ((idx + n - 1) mod n),
                           SBSeat := seats ! ((idx + n - 2) mod n)\<rparr>)))"
  proof (intro impI allI)
    fix s
    assume nb: "SBSeat h < 0 \<and> BBSeat h < 0" and fv: "firstVoluntary pfs = Some s"
    then obtain a where a: "find isVoluntary pfs = Some a" "seatID a = s"
      by (auto simp: firstVoluntary_def)
    then have "a \<in> set pfs" by (auto simp: find_Some_iff)
    then have s: "0 \<le> s" "s \<in> set seats" using wf a(2) setseats by (auto simp: seatsKnown_def)
    have loop: "firstSeatLoop (- 1) pfs = s"
      using firstSeatLoop_find[of "- 1" pfs] nonneg a by simp
    obtain idx where idx: "indexOf s seats = Some idx" using indexOf_mem[OF s(2)] by blast
    then have "idx < n" "seats ! idx = s" using indexOf_Some[OF idx] by (simp_all add: n_def)
    moreover have "inferBlindsFromPreflop pfs h =
        (True, h\<lparr>BBSeat := seats ! ((idx + n - 1) mod n), SBSeat := seats ! ((idx + n - 2) mod n)\<rparr>)"
      using nb n(1) s(1) loop idx
      by (simp add: inferBlindsFromPreflop_def sortInts_sort Let_def seats_def[symmetric] n_def[symmetric])
    ultimately show "\<exists>idx<n. seats ! idx = s \<and>
               inferBlindsFromPreflop pfs h =
                 (True, h\<lparr>BBSeat := seats ! ((idx + n - 1) mod n),
                           SBSeat := seats ! ((idx + n - 2) mod n)\<rparr>)"
      by blast
  qed
  have sb: "0 \<le> SBSeat h \<and> BBSeat h < 0 \<longrightarrow>
         (\<exists>idx<n. seats ! idx = SBSeat h \<and>
            inferBlindsFromPreflop pfs h = (True, h\<lparr>BBSeat := seats ! ((idx + 1) mod n)\<rparr>))"
  proof
    assume c: "0 \<le> SBSeat h \<and> BBSeat h < 0"
    then have "SBSeat h \<in> set seats" using wf setseats by (simp add: seatsKnown_def)
    then obtain idx where idx: "indexOf (SBSeat h) seats = Some idx" using indexOf_mem by blast
    then have "idx < n" "seats ! idx = SBSeat h" using indexOf_Some[OF idx] by (simp_all add: n_def)
    moreover have "inferBlindsFromPreflop pfs h = (True, h\<lparr>BBSeat := seats ! ((idx + 1) mod n)\<rparr>)"
      using c n(1) idx
      by (simp add: inferBlindsFromPreflop_def sortInts_sort Let_def seats_def[symmetric] n_def[symmetric])
    ultimately show "\<exists>idx<n. seats ! idx = SBSeat h \<and>
            inferBlindsFromPreflop pfs h = (True, h\<lparr>BBSeat := seats ! ((idx + 1) mod n)\<rparr>)"
      by blast
  qed
  have bb: "0 \<le> BBSeat h \<and> SBSeat h < 0 \<longrightarrow>
         (\<exists>idx<n. seats ! idx = BBSeat h \<and>
            inferBlindsFromPreflop pfs h = (True, h\<lparr>SBSeat := seats ! ((idx + n - 1) mod n)\<rparr>))"
  proof
    assume c: "0 \<le> BBSeat h \<and> SBSeat h < 0"
    then have "BBSeat h \<in> set seats" using wf setseats by (simp add: seatsKnown_def)
    then obtain idx where idx: "indexOf (BBSeat h) seats = Some idx" using indexOf_mem by blast
    then have "idx < n" "seats ! idx = BBSeat h" using indexOf_Some[OF idx] by (simp_all add: n_def)
    moreover have "inferBlindsFromPreflop pfs h = (True, h\<lparr>SBSeat := seats ! ((idx + n - 1) mod n)\<rparr>)"
      using c n(1) idx
      by (simp add: inferBlindsFromPreflop_def sortInts_sort Let_def seats_def[symmetric] n_def[symmetric])
    ultimately show "\<exists>idx<n. seats ! idx = BBSeat h \<and>
            inferBlindsFromPreflop pfs h = (True, h\<lparr>SBSeat := seats ! ((idx + n - 1) mod n)\<rparr>)"
      by blast
  qed
  show "let seats = sort (ActiveSeats h); n = length seats in
            (SBSeat h < 0 \<and> BBSeat h < 0 \<longrightarrow>
               (\<forall>s. firstVoluntary pfs = Some s \<longrightarrow>
                  (\<exists>idx<n. seats ! idx = s \<and>
                     inferBlindsFromPreflop pfs h =
                       (True, h\<lparr>BBSeat := seats ! ((idx + n - 1) mod n),
                                 SBSeat := seats ! ((idx + n - 2) mod n)\<rparr>)))) \<and>
            (0 \<le> SBSeat h \<and> BBSeat h < 0 \<longrightarrow>
               (\<exists>idx<n. seats ! idx = SBSeat h \<and>
                  inferBlindsFromPreflop pfs h = (True, h\<lparr>BBSeat := seats ! ((idx + 1) mod n)\<rparr>))) \<and>
            (0 \<le> BBSeat h \<and> SBSeat h < 0 \<longrightarrow>
               (\<exists>idx<n. seats ! idx = BBSeat h \<and>
                  inferBlindsFromPreflop pfs h =
                    (True, h\<lparr>SBSeat := seats ! ((idx + n - 1) mod n)\<rparr>)))"
    unfolding Let_def seats_def[symmetric] n_def[symmetric]
    using none sb bb by blast
qed

text \<open>In \<open>calculatePreflopStats_v1\<close> a seat marked fold-to-3-bet is marked PFR, when the
  seats of the buffered actions are seat numbers.\<close>

lemma pfrOf_updPlayer_same:
  "(\<And>pi. PFR (f pi) = PFR pi) \<Longrightarrow> pfrOf (updPlayer s f h) s' = pfrOf h s'"
  by (simp add: pfrOf_def split: option.split)

lemma pfrOf_updPlayer_set:
  "(\<And>pi. PFR (f pi)) \<Longrightarrow> Players h s \<noteq> None \<Longrightarrow>
   pfrOf (updPlayer s f h) s' = (s' = s \<or> pfrOf h s')"
  by (auto simp: pfrOf_def split: option.split)

lemma foldTo3BetOf_updPlayer_same:
  "(\<And>pi. FoldTo3Bet (f pi) = FoldTo3Bet pi) \<Longrightarrow>
   foldTo3BetOf (updPlayer s f h) s' = foldTo3BetOf h s'"
  by (simp add: foldTo3BetOf_def split: option.split)

lemma foldTo3BetOf_updPlayer_set:
  "(\<And>pi. FoldTo3Bet (f pi)) \<Longrightarrow> Players h s \<noteq> None \<Longrightarrow>
   foldTo3BetOf (updPlayer s f h) s' = (s' = s \<or> foldTo3BetOf h s')"
  by (auto simp: foldTo3BetOf_def split: option.split)

lemma pfStep_v1_inv:
  assumes "v1Inv (h, L, frs)" and "0 \<le> seatID act"
  shows "v1Inv (pfStep_v1 act (h, L, frs))"
proof (cases "Players h (seatID act)")
  case None
  then show ?thesis using assms by (simp add: pfStep_v1_def)
next
  case (Some pi0)
  show ?thesis
    using assms
    by (cases "action act")
       (auto simp: pfStep_v1_def Let_def Some v1Inv_def pfrOf_updPlayer_same
          pfrOf_updPlayer_set foldTo3BetOf_updPlayer_same foldTo3BetOf_updPlayer_set)
qed

lemma fold_pfStep_v1_inv:
  assumes "v1Inv st" and "\<forall>a\<in>set pfs. 0 \<le> seatID a"
  shows "v1Inv (fold pfStep_v1 pfs st)"
  using assms
proof (induction pfs arbitrary: st)
  case Nil
  then show ?case by simp
next
  case (Cons act pfs)
  obtain h L frs where st: "st = (h, L, frs)" by (cases st) auto
  have "v1Inv (pfStep_v1 act st)"
    using pfStep_v1_inv[of h L frs act] Cons.prems by (simp add: st)
  then show ?case using Cons.IH[of "pfStep_v1 act st"] Cons.prems by simp
qed

lemma calculatePreflopStats_v1_foldTo3Bet:
  assumes "\<forall>a\<in>set pfs. 0 \<le> seatID a" and "\<forall>s. foldTo3BetOf h s \<longrightarrow> pfrOf h s"
  shows "\<forall>s. foldTo3BetOf (calculatePreflopStats_v1 pfs h) s \<longrightarrow>
             pfrOf (calculatePreflopStats_v1 pfs h) s"
proof -
  have "v1Inv (h, 1, - 1)" using assms(2) by (simp add: v1Inv_def)
  then have "v1Inv (fold pfStep_v1 pfs (h, 1, - 1))"
    using fold_pfStep_v1_inv assms(1) by blast
  then show ?thesis
    using assms(2)
    by (cases "fold pfStep_v1 pfs (h, 1, - 1)") (auto simp: calculatePreflopStats_v1_def v1Inv_def)
qed


section \<open>Evaluating the model on log excerpts\<close>

lemma parseCard_never_fails: "\<exists>c. parseCard s = Inr c"
  by (simp add: parseCard_def Let_def)

lemma parseCardsLoop_never_fails: "\<exists>cs. parseCardsLoop parts acc = Inr cs"
proof (induction parts arbitrary: acc)
  case Nil
  show ?case by simp
next
  case (Cons part parts)
  obtain c where "parseCard (TrimSpace part) = Inr c" using parseCard_never_fails by blast
  then show ?case using Cons.IH by simp
qed

lemma parseCards_never_fails: "\<exists>cs. parseCards s = Inr cs"
  by (simp add: parseCards_def parseCardsLoop_never_fails)

lemma parseCards_7d_Xx: "parseCards ''7d, Xx'' = Inr [\<lparr>Rank = ''7'', Suit = ''d''\<rparr>, emptyCard]"
  by code_simp

lemma parseCards_Ah_Kd:
  "parseCards ''Ah, Kd'' = Inr [\<lparr>Rank = ''A'', Suit = ''h''\<rparr>, \<lparr>Rank = ''K'', Suit = ''d''\<rparr>]"
  by code_simp

lemma parseCards_7d_9c:
  "parseCards ''7d, 9c'' = Inr [\<lparr>Rank = ''7'', Suit = ''d''\<rparr>, \<lparr>Rank = ''9'', Suit = ''c''\<rparr>]"
  by code_simp

lemma parseCards_9c_7d:
  "parseCards ''9c, 7d'' = Inr [\<lparr>Rank = ''9'', Suit = ''c''\<rparr>, \<lparr>Rank = ''7'', Suit = ''d''\<rparr>]"
  by code_simp

lemmas run_defs = ParseReader_def ParseLines_def processPokerEvent_def NewParser_def
  startNewHand_def finalizeCurrentHand_def finalizeLocalCards_def finalizeHand_def
  assignLocalCards_def ensurePlayer_def updPlayer_def addAction_def classifyAction_def
  applyWinner_def calculatePreflopStats_def pfStep_def bbAmount_def assignPositions_def
  positionOrder_def Atoi_def AtoiChips_def newPlayerHandInfo_def Let_def word_sless_alt
  word_sle_eq zeroTime_def cardsMatch_def sortInts_sort

lemma Atoi_small [simp]: "Atoi 2 = 2" "Atoi 3 = 3" "Atoi 4 = 4" "Atoi 5 = 5" "Atoi 8 = 8"
  by (simp_all add: Atoi_def)

lemma AtoiChips_small [simp]:
  "AtoiChips 10 = 10" "AtoiChips 20 = 20" "AtoiChips 30 = 30" "AtoiChips 60 = 60"
  "AtoiChips 180 = 180"
  by (simp_all add: AtoiChips_def Atoi_def)

lemma blinds_state:
  "\<exists>h. currentHand (ParseLines linesBlinds NewParser) = Some h \<and>
       actionsOf h 4 = [] \<and> SBSeat h = 2 \<and> BBSeat h = 3 \<and> bbAmount h = 20 \<and>
       map_option VPIP (Players h 2) = Some False"
  unfolding linesBlinds_def
  by (simp add: run_defs actionsOf_def parseCards_Ah_Kd del: Players_updPlayer Players_ensurePlayer)

lemma blinds_parser:
  "streetBetAmount (ParseLines linesBlinds NewParser) = 20 \<and>
   \<not> foldedThisHand (ParseLines linesBlinds NewParser) 4 \<and>
   currentStreet (ParseLines linesBlinds NewParser) = StreetPreFlop"
  unfolding linesBlinds_def
  by (simp add: run_defs parseCards_Ah_Kd del: Players_updPlayer Players_ensurePlayer)

lemma splitPot_local:
  "\<exists>h0. currentHand (ParseLines linesSplitPot NewParser) = Some h0 \<and>
        LocalPlayerSeat h0 = 2 \<and> Players h0 2 \<noteq> None \<and>
        Hands (result (ParseLines linesSplitPot NewParser)) = [] \<and>
        pendingWinners (ParseLines linesSplitPot NewParser) =
          [\<lparr>winSeat = 2, winAmount = 30\<rparr>, \<lparr>winSeat = 3, winAmount = 30\<rparr>,
           \<lparr>winSeat = 2, winAmount = 15\<rparr>]"
  unfolding linesSplitPot_def
  by (simp add: run_defs parseCards_Ah_Kd del: Players_updPlayer Players_ensurePlayer)

lemma parseCard_small:
  "parseCard (TrimSpace ''2h'') = Inr \<lparr>Rank = ''2'', Suit = ''h''\<rparr>"
  "parseCard (TrimSpace ''3h'') = Inr \<lparr>Rank = ''3'', Suit = ''h''\<rparr>"
  "parseCard (TrimSpace ''4h'') = Inr \<lparr>Rank = ''4'', Suit = ''h''\<rparr>"
  "parseCard (TrimSpace ''5h'') = Inr \<lparr>Rank = ''5'', Suit = ''h''\<rparr>"
  "parseCard (TrimSpace ''6h'') = Inr \<lparr>Rank = ''6'', Suit = ''h''\<rparr>"
  "parseCard (TrimSpace ''7h'') = Inr \<lparr>Rank = ''7'', Suit = ''h''\<rparr>"
  by code_simp+

lemma S5_state:
  "\<exists>h. currentHand (ParseLines linesS5 NewParser) = Some h \<and>
       ActiveSeats h = [3, 4, 2] \<and> SBSeat h = - 1 \<and> BBSeat h = - 1"
  "pfActions (ParseLines linesS5 NewParser) =
     [\<lparr>seatID = 3, action = ActionBet, amount = 40\<rparr>,
      \<lparr>seatID = 4, action = ActionFold, amount = 0\<rparr>,
      \<lparr>seatID = 2, action = ActionFold, amount = 0\<rparr>]"
  unfolding linesS5_def
  by (simp_all add: run_defs parseCards_Ah_Kd del: Players_updPlayer Players_ensurePlayer)

text \<open>The inference on the hand of scenario S5, and on a hand with a single active seat
  (after \<open>Player 3 End Turn with BET IN = 40\<close> alone it returns false and both blind seats
  stay \<open>-1\<close>).\<close>

lemma inferBlindsFromPreflop_S5:
  "\<exists>h. currentHand (ParseLines linesS5 NewParser) = Some h \<and>
       seatsKnown h (pfActions (ParseLines linesS5 NewParser)) \<and>
       sort (ActiveSeats h) = [2, 3, 4] \<and>
       firstVoluntary (pfActions (ParseLines linesS5 NewParser)) = Some 3 \<and>
       inferBlindsFromPreflop (pfActions (ParseLines linesS5 NewParser)) h =
         (True, h\<lparr>BBSeat := 2, SBSeat := 4\<rparr>)"
proof -
  define p where "p = ParseLines linesS5 NewParser"
  obtain h where cur: "currentHand p = Some h" and act: "ActiveSeats h = [3, 4, 2]"
    and nb: "SBSeat h = - 1" "BBSeat h = - 1"
    using S5_state(1) unfolding p_def by (elim exE conjE)
  have pfs: "pfActions p =
     [\<lparr>seatID = 3, action = ActionBet, amount = 40\<rparr>,
      \<lparr>seatID = 4, action = ActionFold, amount = 0\<rparr>,
      \<lparr>seatID = 2, action = ActionFold, amount = 0\<rparr>]"
    using S5_state(2) by (simp add: p_def)
  have wf: "seatsKnown h (pfActions p)" by (simp add: seatsKnown_def pfs act nb)
  have fv: "firstVoluntary (pfActions p) = Some 3"
    by (simp add: firstVoluntary_def isVoluntary_def pfs)
  have srt: "sort (ActiveSeats h) = [2, 3, 4]" by (simp add: act)
  define seats where "seats = sort (ActiveSeats h)"
  define n where "n = length seats"
  have n2: "2 \<le> length (ActiveSeats h)" by (simp add: act)
  have neg: "SBSeat h < 0 \<and> BBSeat h < 0" by (simp add: nb)
  have "\<exists>idx<n. seats ! idx = 3 \<and>
          inferBlindsFromPreflop (pfActions p) h =
            (True, h\<lparr>BBSeat := seats ! ((idx + n - 1) mod n),
                      SBSeat := seats ! ((idx + n - 2) mod n)\<rparr>)"
    using inferBlindsFromPreflop_rotation[OF wf] fv neg n2 unfolding Let_def seats_def n_def by blast
  then obtain idx where idx: "idx < n" "seats ! idx = 3"
    and inf: "inferBlindsFromPreflop (pfActions p) h =
            (True, h\<lparr>BBSeat := seats ! ((idx + n - 1) mod n),
                      SBSeat := seats ! ((idx + n - 2) mod n)\<rparr>)"
    by blast
  have sn: "seats = [2, 3, 4]" "n = 3" by (simp_all add: seats_def n_def srt)
  have "idx = 0 \<or> idx = 1 \<or> idx = 2" using idx(1) sn(2) by arith
  then have "idx = 1" using idx(2) sn(1) by auto
  then have "inferBlindsFromPreflop (pfActions p) h = (True, h\<lparr>BBSeat := 2, SBSeat := 4\<rparr>)"
    using inf by (simp add: sn)
  then show ?thesis using cur wf srt fv unfolding p_def by blast
qed

lemma inferBlindsFromPreflop_one_seat:
  "map_option
     (\<lambda>h. (ActiveSeats h, SBSeat h, BBSeat h,
           fst (inferBlindsFromPreflop (pfActions (ParseLines linesOneSeat NewParser)) h),
           SBSeat (snd (inferBlindsFromPreflop (pfActions (ParseLines linesOneSeat NewParser)) h)),
           BBSeat (snd (inferBlindsFromPreflop (pfActions (ParseLines linesOneSeat NewParser)) h))))
     (currentHand (ParseLines linesOneSeat NewParser))
     = Some ([3], - 1, - 1, False, - 1, - 1) \<and>
   firstVoluntary (pfActions (ParseLines linesOneSeat NewParser)) = Some 3"
  unfolding linesOneSeat_def
  by (simp add: run_defs inferBlindsFromPreflop_def firstVoluntary_def isVoluntary_def
        del: Players_updPlayer Players_ensurePlayer)


section \<open>The claims\<close>

text \<open>
  Claim C4. Decoding a comma-separated card list that holds an invalid token should fail,
  so that the caller ignores the line; decoding a single invalid token gives the empty
  card. In the code \<open>parseCard\<close> returns the empty card with a nil error in both of its
  failure exits, so the \<open>err != nil\<close> exits of \<open>parseCards\<close> and of its callers never
  fire (\<open>parseCards_never_fails\<close>). On the list \<open>7d, Xx\<close> the decoder returns the card
  \<open>7d\<close> followed by an empty card, and the \<open>Draw Local Hole Cards\<close> handler stores that
  list as the pending local cards instead of ignoring the line.
\<close>

theorem invalid_token_in_list_is_kept:
  "parseCards ''7d, Xx'' = Inr [\<lparr>Rank = ''7'', Suit = ''d''\<rparr>, emptyCard] \<and>
   pendingLocalCards
     (ParseLines [PokerMsg 1 NewGame, PokerMsg 2 (DrawLocalHole ''7d, Xx'')] NewParser)
     = Some [\<lparr>Rank = ''7'', Suit = ''d''\<rparr>, emptyCard]"
  by (simp add: run_defs parseCards_7d_Xx del: Players_updPlayer Players_ensurePlayer)

text \<open>
  Claim C5. A reveal whose two cards equal the pending local pair in either order should
  make the revealing seat the local seat, moving the cards there from a seat they were
  tentatively given to. \<open>cardsMatch\<close> is documented as order-insensitive but compares
  index by index: with \<open>7d, 9c\<close> pending, seat 8 showing \<open>9c, 7d\<close> is not matched, the
  local seat stays unknown (\<open>-1\<close>) and the hand is dropped at finalization. And a
  tentative assignment is never revised, although the \<open>Draw Local Hole Cards\<close> handler
  says it will be: \<open>assignLocalCards\<close> clears the pending cards, so in scenario S4 the
  reveal by seat 8 finds nothing pending, the local seat stays 2 and seat 2 keeps the
  cards.
\<close>

theorem reversed_reveal_not_matched:
  "\<not> cardsMatch [\<lparr>Rank = ''7'', Suit = ''d''\<rparr>, \<lparr>Rank = ''9'', Suit = ''c''\<rparr>]
                 [\<lparr>Rank = ''9'', Suit = ''c''\<rparr>, \<lparr>Rank = ''7'', Suit = ''d''\<rparr>] \<and>
   ResultLocalSeat (result (ParseLines linesReversedReveal NewParser)) = - 1 \<and>
   Hands (fst (ParseReader (map Some linesReversedReveal))) = [] \<and>
   ResultLocalSeat (fst (ParseReader (map Some linesS4))) = 2 \<and>
   map (\<lambda>h. (LocalPlayerSeat h, map_option HoleCards (Players h 2),
             map_option HoleCards (Players h 8)))
       (Hands (fst (ParseReader (map Some linesS4))))
     = [(2, Some [\<lparr>Rank = ''7'', Suit = ''d''\<rparr>, \<lparr>Rank = ''9'', Suit = ''c''\<rparr>],
            Some [\<lparr>Rank = ''7'', Suit = ''d''\<rparr>, \<lparr>Rank = ''9'', Suit = ''c''\<rparr>])]"
  unfolding linesReversedReveal_def linesS4_def
  by (simp add: run_defs parseCards_7d_9c parseCards_9c_7d
        del: Players_updPlayer Players_ensurePlayer)

text \<open>
  Claim C6. A player marked fold-to-3-bet should also be marked PFR. In scenario S2 of the
  specification the big blind lifts the bet level to 2, so the first raise (seat 4) is
  counted at level 3 and marked three-bet, not PFR; when seat 4 folds to the re-raise it is
  marked fold-to-3-bet. Seat 4 ends with PFR false, three-bet true, fold-to-3-bet true.
\<close>

theorem first_raiser_fold_marked_without_PFR:
  "map (\<lambda>h. map_option (\<lambda>pi. (PFR pi, ThreeBet pi, FoldTo3Bet pi)) (Players h 4))
       (Hands (fst (ParseReader (map Some linesS2)))) = [Some (False, True, True)]"
  unfolding linesS2_def
  by (simp add: run_defs parseCards_Ah_Kd
        del: Players_updPlayer Players_ensurePlayer)

text \<open>
  Claim C7. A voluntary-action event (\<open>End Turn with BET IN = a\<close>) by a seat that has not
  folded in this hand is recorded as a check when \<open>a = 0\<close>, else as a bet when the highest
  bet of the street is 0, else as a raise when \<open>a\<close> exceeds it, else as a call; the highest
  bet of the street rises to \<open>a\<close> when \<open>a\<close> exceeds it and the seat's committed amount is
  set to \<open>a\<close>. An event by a seat that has folded changes nothing. The statement is about
  \<open>processPokerEvent\<close> on a parser with a hand in progress.
\<close>

theorem end_turn_classified:
  assumes cur: "currentHand p = Some h"
  shows "(foldedThisHand p (Atoi s) \<longrightarrow> processPokerEvent ts (PlayerEndTurn s a) p = p) \<and>
         (\<not> foldedThisHand p (Atoi s) \<longrightarrow>
            (\<exists>h'. currentHand (processPokerEvent ts (PlayerEndTurn s a) p) = Some h' \<and>
                  actionsOf h' (Atoi s) =
                    actionsOf h (Atoi s) @
                      [\<lparr>Timestamp = ts, PlayerID = Atoi s, Street = currentStreet p,
                        Action = recordedKind (streetBetAmount p) (AtoiChips a),
                        Amount = AtoiChips a\<rparr>]) \<and>
            streetBetAmount (processPokerEvent ts (PlayerEndTurn s a) p) =
              (if streetBetAmount p <s AtoiChips a then AtoiChips a else streetBetAmount p) \<and>
            streetBets (processPokerEvent ts (PlayerEndTurn s a) p) =
              (streetBets p)(Atoi s \<mapsto> AtoiChips a))"
proof (intro conjI impI)
  assume "foldedThisHand p (Atoi s)"
  then show "processPokerEvent ts (PlayerEndTurn s a) p = p"
    using cur by (simp add: processPokerEvent_def Let_def)
next
  assume nf: "\<not> foldedThisHand p (Atoi s)"
  show "\<exists>h'. currentHand (processPokerEvent ts (PlayerEndTurn s a) p) = Some h' \<and>
          actionsOf h' (Atoi s) =
            actionsOf h (Atoi s) @
              [\<lparr>Timestamp = ts, PlayerID = Atoi s, Street = currentStreet p,
                Action = recordedKind (streetBetAmount p) (AtoiChips a), Amount = AtoiChips a\<rparr>]"
    using cur nf
    by (simp add: processPokerEvent_def Let_def actionsOf_def classifyAction_recordedKind
          newPlayerHandInfo_def split: option.split)
next
  assume nf: "\<not> foldedThisHand p (Atoi s)"
  show "streetBetAmount (processPokerEvent ts (PlayerEndTurn s a) p) =
          (if streetBetAmount p <s AtoiChips a then AtoiChips a else streetBetAmount p)"
    using cur nf by (simp add: processPokerEvent_def Let_def)
next
  assume nf: "\<not> foldedThisHand p (Atoi s)"
  show "streetBets (processPokerEvent ts (PlayerEndTurn s a) p) = (streetBets p)(Atoi s \<mapsto> AtoiChips a)"
    using cur nf by (simp add: processPokerEvent_def Let_def)
qed

theorem end_turn_classified_witness:
  "\<exists>h'. currentHand (processPokerEvent 5 (PlayerEndTurn 4 60) (ParseLines linesBlinds NewParser))
          = Some h' \<and>
        map Action (actionsOf h' 4) = [ActionRaise] \<and>
        streetBetAmount (processPokerEvent 5 (PlayerEndTurn 4 60) (ParseLines linesBlinds NewParser))
          = 60"
proof -
  obtain h where cur: "currentHand (ParseLines linesBlinds NewParser) = Some h"
    and acts: "actionsOf h 4 = []"
    using blinds_state by blast
  show ?thesis
    using end_turn_classified[OF cur, of 4 5 60] acts blinds_parser
    by (auto simp: recordedKind_def word_sless_alt)
qed

text \<open>
  Claim C2. In the pre-flop pass (\<open>calculatePreflopStats\<close>, run by finalization on the
  buffered pre-flop actions) a call leaves the caller's VPIP flag as it was when the caller
  is the small blind, the amount is at most the big blind and the bet level is at most 2,
  or when the caller is the big blind and the bet level is at most 2; every other call
  sets the flag, and a flag that is set stays set to the end of the pass. A check changes
  nothing. The statement is about the pass over any actions \<open>pre\<close> followed by the call
  (and then by any actions \<open>post\<close>), with the bet level the pass has reached after
  \<open>pre\<close>; the same rule is stated of one turn of the loop, \<open>pfStep\<close>, in any loop
  state. Through the whole parser: in scenario S6 (small blind 10 by seat 2, big blind 20
  by seat 3, seat 2 ends its turn with 20) seat 2 ends the hand with VPIP false; when seat
  4 calls 20, the small blind completes and the big blind closes, only seat 4 is marked;
  when seat 4 raises to 60 first and seats 2 and 3 call 60, all three are marked.
\<close>

theorem preflop_call_VPIP:
  "(action act = ActionCall \<and> Players h (seatID act) \<noteq> None \<longrightarrow>
      vpipOf (calculatePreflopStats (pre @ [act]) h) (seatID act) =
        (vpipOf (calculatePreflopStats pre h) (seatID act) \<or>
         \<not> callExcluded h (seatID act) (amount act) (betLevelAfter pre h)) \<and>
      (\<forall>s. s \<noteq> seatID act \<longrightarrow>
         Players (calculatePreflopStats (pre @ [act]) h) s = Players (calculatePreflopStats pre h) s) \<and>
      betLevelAfter (pre @ [act]) h = betLevelAfter pre h \<and>
      (vpipOf (calculatePreflopStats (pre @ [act]) h) (seatID act) \<longrightarrow>
         vpipOf (calculatePreflopStats (pre @ act # post) h) (seatID act))) \<and>
   (action act = ActionCheck \<longrightarrow>
      calculatePreflopStats (pre @ [act]) h = calculatePreflopStats pre h \<and>
      betLevelAfter (pre @ [act]) h = betLevelAfter pre h) \<and>
   (Players h' (seatID act) = Some pi \<and> action act = ActionCall \<longrightarrow>
      snd (pfStep act (h', L, r)) = (L, r) \<and>
      (\<forall>s. s \<noteq> seatID act \<longrightarrow> Players (fst (pfStep act (h', L, r))) s = Players h' s) \<and>
      map_option VPIP (Players (fst (pfStep act (h', L, r))) (seatID act)) =
        Some (VPIP pi \<or> \<not> callExcluded h' (seatID act) (amount act) L)) \<and>
   (action act = ActionCheck \<longrightarrow> pfStep act (h', L, r) = (h', L, r)) \<and>
   map (\<lambda>h. map (vpipOf h) [2, 3, 4]) (Hands (fst (ParseReader (map Some linesS6))))
     = [[False, False, False]] \<and>
   map (\<lambda>h. map (vpipOf h) [2, 3, 4]) (Hands (fst (ParseReader (map Some linesLimpers))))
     = [[False, False, True]] \<and>
   map (\<lambda>h. map (vpipOf h) [2, 3, 4]) (Hands (fst (ParseReader (map Some linesS6Raise))))
     = [[True, True, True]]"
proof (intro conjI impI)
  assume a: "action act = ActionCall \<and> Players h (seatID act) \<noteq> None"
  obtain h1 L1 r1 where st: "fold pfStep pre (h, 1, Map.empty) = (h1, L1, r1)"
    by (cases "fold pfStep pre (h, 1, Map.empty)") auto
  have h1: "h1 = fst (fold pfStep pre (h, 1, Map.empty))" by (simp add: st)
  have "Players h1 (seatID act) \<noteq> None"
    using a by (simp add: h1 hasEntry_fold_pfStep)
  then obtain pi1 where pi1: "Players h1 (seatID act) = Some pi1" by auto
  have call: "action act = ActionCall" using a by simp
  have ex: "callExcluded h1 (seatID act) (amount act) L1 = callExcluded h (seatID act) (amount act) L1"
    by (simp add: h1 callExcluded_fold_pfStep)
  have lev: "betLevelAfter pre h = L1" by (simp add: betLevelAfter_def st)
  have pre: "calculatePreflopStats pre h = h1" by (simp add: calculatePreflopStats_fold st)
  have app: "calculatePreflopStats (pre @ [act]) h = fst (pfStep act (h1, L1, r1))"
    by (simp add: calculatePreflopStats_fold st)
  show "vpipOf (calculatePreflopStats (pre @ [act]) h) (seatID act) =
        (vpipOf (calculatePreflopStats pre h) (seatID act) \<or>
         \<not> callExcluded h (seatID act) (amount act) (betLevelAfter pre h))"
    using pfStep_call(3)[OF pi1 call, of L1 r1] by (simp add: app pre lev ex)
  show "\<forall>s. s \<noteq> seatID act \<longrightarrow>
         Players (calculatePreflopStats (pre @ [act]) h) s = Players (calculatePreflopStats pre h) s"
    using pfStep_call(2)[OF pi1 call, of _ L1 r1] by (simp add: app pre)
  show "betLevelAfter (pre @ [act]) h = betLevelAfter pre h"
    using pfStep_call(1)[OF pi1 call, of L1 r1] by (simp add: betLevelAfter_def st)
  assume v: "vpipOf (calculatePreflopStats (pre @ [act]) h) (seatID act)"
  obtain h2 L2 r2 where st2: "pfStep act (h1, L1, r1) = (h2, L2, r2)"
    by (cases "pfStep act (h1, L1, r1)") auto
  have "vpipOf h2 (seatID act)" using v by (simp add: app st2)
  then have "vpipOf (fst (fold pfStep post (h2, L2, r2))) (seatID act)"
    by (rule vpipOf_fold_pfStep_mono)
  then show "vpipOf (calculatePreflopStats (pre @ act # post) h) (seatID act)"
    by (simp add: calculatePreflopStats_fold st st2)
next
  assume c: "action act = ActionCheck"
  obtain h1 L1 r1 where st: "fold pfStep pre (h, 1, Map.empty) = (h1, L1, r1)"
    by (cases "fold pfStep pre (h, 1, Map.empty)") auto
  show "calculatePreflopStats (pre @ [act]) h = calculatePreflopStats pre h"
    by (simp add: calculatePreflopStats_fold st pfStep_check[OF c])
  show "betLevelAfter (pre @ [act]) h = betLevelAfter pre h"
    by (simp add: betLevelAfter_def st pfStep_check[OF c])
next
  assume a: "Players h' (seatID act) = Some pi \<and> action act = ActionCall"
  show "snd (pfStep act (h', L, r)) = (L, r)"
    using a by (simp add: pfStep_def Let_def)
  show "\<forall>s. s \<noteq> seatID act \<longrightarrow> Players (fst (pfStep act (h', L, r))) s = Players h' s"
    using a by (simp add: pfStep_def Let_def)
  show "map_option VPIP (Players (fst (pfStep act (h', L, r))) (seatID act)) =
        Some (VPIP pi \<or> \<not> callExcluded h' (seatID act) (amount act) L)"
    using a by (auto simp: pfStep_def Let_def callExcluded_def)
next
  assume "action act = ActionCheck"
  then show "pfStep act (h', L, r) = (h', L, r)" by (rule pfStep_check)
next
  show "map (\<lambda>h. map (vpipOf h) [2, 3, 4]) (Hands (fst (ParseReader (map Some linesS6))))
     = [[False, False, False]]"
    unfolding linesS6_def linesBlinds_def
    by (simp add: run_defs vpipOf_def parseCards_Ah_Kd del: Players_updPlayer Players_ensurePlayer)
next
  show "map (\<lambda>h. map (vpipOf h) [2, 3, 4]) (Hands (fst (ParseReader (map Some linesLimpers))))
     = [[False, False, True]]"
    unfolding linesLimpers_def linesBlinds_def
    by (simp add: run_defs vpipOf_def parseCards_Ah_Kd del: Players_updPlayer Players_ensurePlayer)
next
  show "map (\<lambda>h. map (vpipOf h) [2, 3, 4]) (Hands (fst (ParseReader (map Some linesS6Raise))))
     = [[True, True, True]]"
    unfolding linesS6Raise_def linesBlinds_def
    by (simp add: run_defs vpipOf_def parseCards_Ah_Kd del: Players_updPlayer Players_ensurePlayer)
qed

theorem preflop_call_VPIP_witness:
  "\<exists>h. currentHand (ParseLines linesBlinds NewParser) = Some h \<and>
       pfActions (ParseLines linesBlinds NewParser) =
         [\<lparr>seatID = 2, action = ActionBlindSB, amount = 10\<rparr>,
          \<lparr>seatID = 3, action = ActionBlindBB, amount = 20\<rparr>] \<and>
       betLevelAfter (pfActions (ParseLines linesBlinds NewParser)) h = 2 \<and>
       callExcluded h 2 20 2 \<and> \<not> callExcluded h 2 60 2 \<and>
       \<not> vpipOf (calculatePreflopStats
                  (pfActions (ParseLines linesBlinds NewParser) @
                     [\<lparr>seatID = 2, action = ActionCall, amount = 20\<rparr>]) h) 2 \<and>
       vpipOf (calculatePreflopStats
                  (pfActions (ParseLines linesBlinds NewParser) @
                     [\<lparr>seatID = 2, action = ActionCall, amount = 60\<rparr>]) h) 2 \<and>
       vpipOf (calculatePreflopStats
                  (pfActions (ParseLines linesBlinds NewParser) @
                     \<lparr>seatID = 2, action = ActionCall, amount = 60\<rparr> #
                     [\<lparr>seatID = 3, action = ActionFold, amount = 0\<rparr>]) h) 2"
proof -
  define pre where "pre = pfActions (ParseLines linesBlinds NewParser)"
  obtain h where cur: "currentHand (ParseLines linesBlinds NewParser) = Some h"
    and h: "SBSeat h = 2" "BBSeat h = 3" "bbAmount h = 20" "map_option VPIP (Players h 2) = Some False"
    using blinds_state by blast
  have pre: "pre = [\<lparr>seatID = 2, action = ActionBlindSB, amount = 10\<rparr>,
                    \<lparr>seatID = 3, action = ActionBlindBB, amount = 20\<rparr>]"
    unfolding pre_def linesBlinds_def
    by (simp add: run_defs parseCards_Ah_Kd del: Players_updPlayer Players_ensurePlayer)
  obtain pi2 where pi2: "Players h 2 = Some pi2" "\<not> VPIP pi2" using h(4) by auto
  have "Players h 3 \<noteq> None"
    using h(2,3) by (cases "Players h 3") (simp_all add: bbAmount_def)
  then obtain pi3 where pi3: "Players h 3 = Some pi3" by auto
  have st: "fold pfStep pre (h, 1, Map.empty) = (h, 2, Map.empty)"
    by (simp add: pre pfStep_def pi2 pi3 Let_def)
  have lev: "betLevelAfter pre h = 2" by (simp add: betLevelAfter_def st)
  have v0: "\<not> vpipOf (calculatePreflopStats pre h) 2"
    by (simp add: calculatePreflopStats_fold st vpipOf_def pi2)
  have e1: "callExcluded h 2 20 2" and e2: "\<not> callExcluded h 2 60 2"
    using h by (simp_all add: callExcluded_def word_sle_eq)
  have ent: "Players h 2 \<noteq> None" using pi2 by simp
  have a: "\<not> vpipOf (calculatePreflopStats (pre @ [\<lparr>seatID = 2, action = ActionCall, amount = 20\<rparr>]) h) 2"
    using preflop_call_VPIP[of "\<lparr>seatID = 2, action = ActionCall, amount = 20\<rparr>" h pre]
      ent v0 e1 lev by simp
  have b: "vpipOf (calculatePreflopStats (pre @ [\<lparr>seatID = 2, action = ActionCall, amount = 60\<rparr>]) h) 2"
    using preflop_call_VPIP[of "\<lparr>seatID = 2, action = ActionCall, amount = 60\<rparr>" h pre]
      ent v0 e2 lev by simp
  have c: "vpipOf (calculatePreflopStats
                  (pre @ \<lparr>seatID = 2, action = ActionCall, amount = 60\<rparr> #
                     [\<lparr>seatID = 3, action = ActionFold, amount = 0\<rparr>]) h) 2"
    using preflop_call_VPIP[of "\<lparr>seatID = 2, action = ActionCall, amount = 60\<rparr>" h pre
        "[\<lparr>seatID = 3, action = ActionFold, amount = 0\<rparr>]"]
      ent b by simp
  show ?thesis
    using cur pre lev e1 e2 a b c unfolding pre_def by blast
qed

text \<open>
  Claim C10. No recorded action is ever an all-in: for every sequence of lines, the hands of
  the result, the hand in progress and the pre-flop buffer hold no action of kind all-in;
  the action classifier returns only check, bet, raise or call (the blind and fold handlers
  record blind-SB, blind-BB and fold). So on the hands the parser produces,
  \<open>isAggressivePreflop\<close> of the opportunity analyzer is true of bets and raises only.
\<close>

theorem no_all_in_recorded:
  "(\<forall>h\<in>set (Hands (fst (ParseReader r))). noAllIn h) \<and>
   (\<forall>h. currentHand (ParseLines ls NewParser) = Some h \<longrightarrow>
        noAllIn h \<and> (\<forall>a\<in>set (pfActions (ParseLines ls NewParser)). action a \<noteq> ActionAllIn)) \<and>
   classifyAction p seat a \<in> {ActionCheck, ActionBet, ActionRaise, ActionCall} \<and>
   (\<forall>h\<in>set (Hands (fst (ParseReader r))). \<forall>s. \<forall>x\<in>set (actionsOf h s).
        isAggressivePreflop (Action x) = (Action x = ActionBet \<or> Action x = ActionRaise))"
proof -
  note reach = noAllIn_reach[of ls]
  have final: "\<forall>h\<in>set (Hands (fst (ParseReader r))). noAllIn h"
    by (rule reachInv_ParseReader[OF noAllIn_reach]) (simp_all add: noAllInPending_list_all noAllIn_list_all)
  have cur: "\<forall>h. currentHand (ParseLines ls NewParser) = Some h \<longrightarrow>
        noAllIn h \<and> (\<forall>a\<in>set (pfActions (ParseLines ls NewParser)). action a \<noteq> ActionAllIn)"
    using reach by (simp add: reachInv_def noAllInPending_def)
  have cls: "classifyAction p seat a \<in> {ActionCheck, ActionBet, ActionRaise, ActionCall}"
    by (simp add: classifyAction_def Let_def)
  have agg: "\<forall>h\<in>set (Hands (fst (ParseReader r))). \<forall>s. \<forall>x\<in>set (actionsOf h s).
        isAggressivePreflop (Action x) = (Action x = ActionBet \<or> Action x = ActionRaise)"
    using final by (auto simp: noAllIn_def isAggressivePreflop_def)
  show ?thesis by (intro conjI final cur cls agg)
qed

theorem no_all_in_recorded_witness:
  "\<exists>h. Hands (fst (ParseReader (map Some linesS2))) = [h] \<and>
       map Action (actionsOf h 4) = [ActionRaise, ActionFold] \<and>
       noAllIn h \<and> \<not> isAggressivePreflop ActionFold \<and> isAggressivePreflop ActionRaise"
proof -
  have ev: "\<exists>h. Hands (fst (ParseReader (map Some linesS2))) = [h] \<and>
       map Action (actionsOf h 4) = [ActionRaise, ActionFold]"
    unfolding linesS2_def
    by (simp add: run_defs parseCards_Ah_Kd actionsOf_def
          del: Players_updPlayer Players_ensurePlayer)
  then obtain h where h: "Hands (fst (ParseReader (map Some linesS2))) = [h]"
    "map Action (actionsOf h 4) = [ActionRaise, ActionFold]" by (elim exE conjE)
  have "noAllIn h" using no_all_in_recorded[where r = "map Some linesS2"] h(1) by simp
  then show ?thesis using h by (simp add: isAggressivePreflop_def)
qed

text \<open>
  Claim C8. On finalization every pending winner (seat, amount) marks its seat as a winner
  and adds the amount to the pot won by the seat; the winner seat of the hand is the seat of
  the last pending winner (\<open>-1\<close> when there is none); and the total pot of the hand is
  the sum of the pots won by its recorded winners. The statement is about
  \<open>finalizeCurrentHand\<close> on the parser state after any sequence of lines with a hand in
  progress: when the hand is kept (\<open>handStored\<close>), the result gains exactly one hand and
  that hand has these winners; otherwise the result is unchanged. \<open>ParseReader\<close> returns
  the hands of this finalization, and in every hand it returns the total pot is the sum of
  the pots won by the recorded winners. Amounts are 64-bit words, so the sums wrap as in
  Go.
\<close>

theorem winners_applied_at_finalization:
  assumes cur: "currentHand (ParseLines ls NewParser) = Some h0"
  shows "(let p = ParseLines ls NewParser; pws = pendingWinners p in
            (handStored h0 p \<longrightarrow>
               (\<exists>h. Hands (result (finalizeCurrentHand p)) = Hands (result p) @ [h] \<and>
                    (\<forall>s. wonIn h s = (s \<in> winSeat ` set pws)) \<and>
                    (\<forall>s. potWon h s = potWonBy pws s) \<and>
                    WinnerSeat h = (if pws = [] then - 1 else winSeat (last pws)) \<and>
                    TotalPot h = (\<Sum>s\<in>winSeat ` set pws. potWon h s))) \<and>
            (\<not> handStored h0 p \<longrightarrow>
               Hands (result (finalizeCurrentHand p)) = Hands (result p))) \<and>
         Hands (fst (ParseReader (map Some ls))) =
           Hands (result (finalizeCurrentHand (ParseLines ls NewParser))) \<and>
         (\<forall>h\<in>set (Hands (fst (ParseReader r))). potConsistent h)"
proof (intro conjI)
  define p where "p = ParseLines ls NewParser"
  define hp where "hp = finalizeLocalCards h0 p"
  define h where "h = finalizeHand (fst hp) (snd hp)"
  have curp: "currentHand p = Some h0" using cur by (simp add: p_def)
  have J0: "noWinnerYet h0 p"
    using noWinnerYet_reach[of ls] cur by (simp add: reachInv_def p_def)
  have J1: "noWinnerYet (fst hp) (snd hp)"
    using finalizeLocalCards_cases[of h0 p] J0 noWinnerYet_local[OF J0]
    unfolding hp_def by auto
  have pw: "pendingWinners (snd hp) = pendingWinners p" by (simp add: hp_def)
  have a: "\<forall>s. wonIn h s = (s \<in> winSeat ` set (pendingWinners p))"
    using J1 by (simp add: h_def finalizeHand_pots noWinnerYet_def pw)
  have b: "\<forall>s. potWon h s = potWonBy (pendingWinners p) s"
    using J1 by (simp add: h_def finalizeHand_pots noWinnerYet_def pw)
  have c: "WinnerSeat h =
      (if pendingWinners p = [] then - 1 else winSeat (last (pendingWinners p)))"
    using J1 by (simp add: h_def finalizeHand_pots noWinnerYet_def pw)
  have d: "TotalPot h = (\<Sum>s\<in>winSeat ` set (pendingWinners p). potWon h s)"
  proof -
    have "TotalPot h = sum_list (map winAmount (pendingWinners p))"
      by (simp add: h_def finalizeHand_pots(4) pw)
    then show ?thesis using b by (simp only: total_by_seat)
  qed
  have hands: "Hands (result (finalizeCurrentHand p)) =
      Hands (result p) @ (if handStored h0 p then [h] else [])"
    using finalizeCurrentHand_Hands[OF curp] by (simp add: h_def hp_def)
  have stored: "handStored h0 p \<longrightarrow>
      (\<exists>h. Hands (result (finalizeCurrentHand p)) = Hands (result p) @ [h] \<and>
           (\<forall>s. wonIn h s = (s \<in> winSeat ` set (pendingWinners p))) \<and>
           (\<forall>s. potWon h s = potWonBy (pendingWinners p) s) \<and>
           WinnerSeat h =
             (if pendingWinners p = [] then - 1 else winSeat (last (pendingWinners p))) \<and>
           TotalPot h = (\<Sum>s\<in>winSeat ` set (pendingWinners p). potWon h s))"
  proof
    assume "handStored h0 p"
    then have "Hands (result (finalizeCurrentHand p)) = Hands (result p) @ [h]"
      using hands by simp
    then show "\<exists>h. Hands (result (finalizeCurrentHand p)) = Hands (result p) @ [h] \<and>
           (\<forall>s. wonIn h s = (s \<in> winSeat ` set (pendingWinners p))) \<and>
           (\<forall>s. potWon h s = potWonBy (pendingWinners p) s) \<and>
           WinnerSeat h =
             (if pendingWinners p = [] then - 1 else winSeat (last (pendingWinners p))) \<and>
           TotalPot h = (\<Sum>s\<in>winSeat ` set (pendingWinners p). potWon h s)"
      using a b c d by (intro exI[of _ h] conjI)
  qed
  have dropped: "\<not> handStored h0 p \<longrightarrow>
      Hands (result (finalizeCurrentHand p)) = Hands (result p)"
    using hands by simp
  show "let p = ParseLines ls NewParser; pws = pendingWinners p in
            (handStored h0 p \<longrightarrow>
               (\<exists>h. Hands (result (finalizeCurrentHand p)) = Hands (result p) @ [h] \<and>
                    (\<forall>s. wonIn h s = (s \<in> winSeat ` set pws)) \<and>
                    (\<forall>s. potWon h s = potWonBy pws s) \<and>
                    WinnerSeat h = (if pws = [] then - 1 else winSeat (last pws)) \<and>
                    TotalPot h = (\<Sum>s\<in>winSeat ` set pws. potWon h s))) \<and>
            (\<not> handStored h0 p \<longrightarrow>
               Hands (result (finalizeCurrentHand p)) = Hands (result p))"
    unfolding Let_def p_def[symmetric] by (intro conjI stored dropped)
next
  show "Hands (fst (ParseReader (map Some ls))) =
           Hands (result (finalizeCurrentHand (ParseLines ls NewParser)))"
    by (simp add: ParseReader_def)
next
  show "\<forall>h\<in>set (Hands (fst (ParseReader r))). potConsistent h"
    by (rule reachInv_ParseReader[OF noWinnerYet_reach])
       (rule noWinnerYet_local noWinnerYet_finalize, assumption)+
qed

theorem winners_applied_at_finalization_witness:
  "\<exists>h. Hands (fst (ParseReader (map Some linesSplitPot))) = [h] \<and>
       wonIn h 2 \<and> wonIn h 3 \<and> \<not> wonIn h 4 \<and> potWon h 2 = 45 \<and> potWon h 3 = 30 \<and>
       WinnerSeat h = 2 \<and> TotalPot h = 75"
proof -
  define p where "p = ParseLines linesSplitPot NewParser"
  obtain h0 where cur: "currentHand p = Some h0"
    and loc: "LocalPlayerSeat h0 = 2" "Players h0 2 \<noteq> None"
    and none: "Hands (result p) = []"
    and pws: "pendingWinners p =
          [\<lparr>winSeat = 2, winAmount = 30\<rparr>, \<lparr>winSeat = 3, winAmount = 30\<rparr>,
           \<lparr>winSeat = 2, winAmount = 15\<rparr>]"
    using splitPot_local unfolding p_def by (elim exE conjE)
  have st: "handStored h0 p" using loc by (simp add: handStored_def)
  have img: "winSeat ` set (pendingWinners p) = {2, 3}" by (auto simp: pws)
  have rd: "Hands (fst (ParseReader (map Some linesSplitPot))) =
        Hands (result (finalizeCurrentHand p))"
    using winners_applied_at_finalization[of linesSplitPot h0] cur
    unfolding p_def by blast
  have "\<exists>h. Hands (result (finalizeCurrentHand p)) = Hands (result p) @ [h] \<and>
      (\<forall>s. wonIn h s = (s \<in> winSeat ` set (pendingWinners p))) \<and>
      (\<forall>s. potWon h s = potWonBy (pendingWinners p) s) \<and>
      WinnerSeat h = (if pendingWinners p = [] then - 1 else winSeat (last (pendingWinners p))) \<and>
      TotalPot h = (\<Sum>s\<in>winSeat ` set (pendingWinners p). potWon h s)"
    using winners_applied_at_finalization[of linesSplitPot h0] cur st
    unfolding p_def[symmetric] Let_def by blast
  then obtain h where hs: "Hands (result (finalizeCurrentHand p)) = Hands (result p) @ [h]"
    and main: "\<forall>s. wonIn h s = (s \<in> winSeat ` set (pendingWinners p))"
      "\<forall>s. potWon h s = potWonBy (pendingWinners p) s"
      "WinnerSeat h = (if pendingWinners p = [] then - 1 else winSeat (last (pendingWinners p)))"
      "TotalPot h = (\<Sum>s\<in>winSeat ` set (pendingWinners p). potWon h s)"
    by (elim exE conjE)
  have one: "Hands (fst (ParseReader (map Some linesSplitPot))) = [h]"
    using rd hs none by simp
  have w: "wonIn h 2" "wonIn h 3" "\<not> wonIn h 4" using main(1) by (simp_all add: img)
  have pw: "potWon h 2 = 45" "potWon h 3 = 30" using main(2) by (simp_all add: potWonBy_def pws)
  have ws: "WinnerSeat h = 2" using main(3) by (simp add: pws)
  have "TotalPot h = (\<Sum>s\<in>{2, 3}. potWon h s)" using main(4) by (simp only: img)
  then have tp: "TotalPot h = 75" by (simp add: pw)
  show ?thesis
    using one w pw ws tp by blast
qed

text \<open>
  Claim C3, as amended. The claim says that a finalized hand with win type showdown has 3,
  4 or 5 community cards. The \<open>[Pot]: Winner\<close> handler sets the win type to showdown
  whatever the board is, and the community card handler appends without a bound, so the
  code guarantees less: a finalized hand with win type showdown has a recorded winner or at
  least three community cards.
\<close>

theorem showdown_needs_winner_or_flop:
  "\<forall>h\<in>set (Hands (fst (ParseReader r))).
     WinType h = ''showdown'' \<longrightarrow> (\<exists>s. wonIn h s) \<or> 3 \<le> length (CommunityCards h)"
proof -
  have "\<forall>h\<in>set (Hands (fst (ParseReader r))). showdownJustified h"
    by (rule reachInv_ParseReader[OF winType_reach])
       (rule winType_local winType_finalize, assumption)+
  then show ?thesis by (simp add: showdownJustified_def)
qed

theorem showdown_needs_winner_or_flop_witness:
  "\<exists>h. Hands (fst (ParseReader (map Some linesFlop))) = [h] \<and> WinType h = ''showdown'' \<and>
       \<not> wonIn h 2 \<and> length (CommunityCards h) = 3 \<and>
       ((\<exists>s. wonIn h s) \<or> 3 \<le> length (CommunityCards h))"
proof -
  have "\<exists>h. Hands (fst (ParseReader (map Some linesFlop))) = [h] \<and> WinType h = ''showdown'' \<and>
       \<not> wonIn h 2 \<and> length (CommunityCards h) = 3"
    unfolding linesFlop_def
    by (simp add: run_defs parseCards_Ah_Kd parseCard_small wonIn_def
          del: Players_updPlayer Players_ensurePlayer)
  then obtain h where h: "Hands (fst (ParseReader (map Some linesFlop))) = [h]" "WinType h = ''showdown''"
    "\<not> wonIn h 2" "length (CommunityCards h) = 3" by (elim exE conjE)
  have "(\<exists>s. wonIn h s) \<or> 3 \<le> length (CommunityCards h)"
    using showdown_needs_winner_or_flop[of "map Some linesFlop"] h(1,2) by simp
  then show ?thesis using h by blast
qed

text \<open>
  The claim C3 as stated fails: a \<open>[Pot]: Winner\<close> line before any community card gives a
  finalized hand with win type showdown and no community card, and six
  \<open>New Community Card\<close> lines give one with six.
\<close>

theorem showdown_without_flop:
  "map (\<lambda>h. (WinType h, length (CommunityCards h))) (Hands (fst (ParseReader (map Some linesWinnerNoBoard))))
     = [(''showdown'', 0)] \<and>
   map (\<lambda>h. (WinType h, length (CommunityCards h))) (Hands (fst (ParseReader (map Some linesSixCards))))
     = [(''showdown'', 6)]"
  unfolding linesWinnerNoBoard_def linesSixCards_def
  by (simp add: run_defs parseCards_Ah_Kd parseCard_small
        del: Players_updPlayer Players_ensurePlayer)

text \<open>
  Claim C1. Finalization should derive missing blind seats: with no blind recorded and a
  voluntary pre-flop action, the big blind is the predecessor of the first acting seat in
  the active seats sorted by seat number and the small blind the seat two before it; with
  one blind recorded, the other is its neighbour. \<open>inferBlindsFromPreflop\<close> computes
  this (\<open>inferBlindsFromPreflop_rotation\<close>), but \<open>finalizeCurrentHand\<close> goes from
  \<open>NumPlayers\<close> to \<open>assignPositions\<close> and never calls it: the hand that finalization
  stores has the blind seats of the hand in progress, whatever the pre-flop actions are.
  In scenario S5 the stored hand has both blind seats \<open>-1\<close> and no position assigned,
  where the inference on the same hand gives big blind 2 and small blind 4.
\<close>

theorem finalization_infers_no_blinds:
  "SBSeat (finalizeHand (fst (finalizeLocalCards h p)) (snd (finalizeLocalCards h p))) = SBSeat h \<and>
   BBSeat (finalizeHand (fst (finalizeLocalCards h p)) (snd (finalizeLocalCards h p))) = BBSeat h \<and>
   map (\<lambda>h. (sort (ActiveSeats h), SBSeat h, BBSeat h,
             map (\<lambda>s. map_option Position (Players h s)) [2, 3, 4]))
       (Hands (fst (ParseReader (map Some linesS5))))
     = [([2, 3, 4], - 1, - 1, [Some PosUnknown, Some PosUnknown, Some PosUnknown])] \<and>
   map_option
     (\<lambda>h. (fst (inferBlindsFromPreflop (pfActions (ParseLines linesS5 NewParser)) h),
           BBSeat (snd (inferBlindsFromPreflop (pfActions (ParseLines linesS5 NewParser)) h)),
           SBSeat (snd (inferBlindsFromPreflop (pfActions (ParseLines linesS5 NewParser)) h))))
     (currentHand (ParseLines linesS5 NewParser))
     = Some (True, 2, 4)"
proof (intro conjI)
  show "SBSeat (finalizeHand (fst (finalizeLocalCards h p)) (snd (finalizeLocalCards h p))) = SBSeat h"
    by (simp add: blinds_finalizeHand blinds_finalizeLocalCards)
  show "BBSeat (finalizeHand (fst (finalizeLocalCards h p)) (snd (finalizeLocalCards h p))) = BBSeat h"
    by (simp add: blinds_finalizeHand blinds_finalizeLocalCards)
  show "map (\<lambda>h. (sort (ActiveSeats h), SBSeat h, BBSeat h,
             map (\<lambda>s. map_option Position (Players h s)) [2, 3, 4]))
       (Hands (fst (ParseReader (map Some linesS5))))
     = [([2, 3, 4], - 1, - 1, [Some PosUnknown, Some PosUnknown, Some PosUnknown])]"
    unfolding linesS5_def
    by (simp add: run_defs parseCards_Ah_Kd del: Players_updPlayer Players_ensurePlayer)
  show "map_option
     (\<lambda>h. (fst (inferBlindsFromPreflop (pfActions (ParseLines linesS5 NewParser)) h),
           BBSeat (snd (inferBlindsFromPreflop (pfActions (ParseLines linesS5 NewParser)) h)),
           SBSeat (snd (inferBlindsFromPreflop (pfActions (ParseLines linesS5 NewParser)) h))))
     (currentHand (ParseLines linesS5 NewParser))
     = Some (True, 2, 4)"
    unfolding linesS5_def
    by (simp add: run_defs parseCards_Ah_Kd inferBlindsFromPreflop_def
          del: Players_updPlayer Players_ensurePlayer)
qed

end
